(* ===== verification/Doppel_Prelude.thy ===== *)
theory Doppel_Prelude
  imports Main "HOL-Library.Word" "HOL-Library.Char_ord" "HOL-Library.List_Lexorder" "HOL-Library.Code_Target_Nat"
begin

text \<open>
  What every other theory of the library shares: the byte and string types with the
  conversions between them, Go's \<open>error\<close> values, the named collections of rewrite rules and
  generic lemmas on lists and options.

  A Go \<open>string\<close> is a sequence of bytes; it is modelled as \<open>string\<close>, a list of the 256
  values of \<open>char\<close>. A \<open>[]byte\<close> that travels over a connection is a list of 8-bit words.
\<close>

named_theorems byte_simps \<open>conversions between bytes and characters\<close>
named_theorems str_simps \<open>facts about the modelled functions of package strings\<close>
named_theorems io_simps \<open>unfolding of connection programs\<close>
named_theorems header_simps \<open>lookups in a header after an update\<close>

section \<open>Bytes and strings\<close>

type_synonym byte = "8 word"
type_synonym bytes = "8 word list"

definition byte_of :: "char \<Rightarrow> byte" where
  "byte_of c = word_of_nat (of_char c)"

definition char_of_byte :: "byte \<Rightarrow> char" where
  "char_of_byte b = char_of (unat b)"

text \<open>The Go conversions \<open>[]byte(s)\<close> and \<open>string(b)\<close>.\<close>

definition bytes_of :: "string \<Rightarrow> bytes" where
  "bytes_of s = map byte_of s"

definition string_of :: "bytes \<Rightarrow> string" where
  "string_of bs = map char_of_byte bs"

lemma char_of_byte_of [simp, byte_simps]: "char_of_byte (byte_of c) = c"
proof -
  have "unat (byte_of c) = of_char c"
    using nat_of_char_less_256 [of c] by (simp add: byte_of_def unat_of_nat)
  then show ?thesis by (simp add: char_of_byte_def)
qed

lemma byte_of_char_of_byte [simp, byte_simps]: "byte_of (char_of_byte b) = b"
proof -
  have "unat b < 256" using unsigned_less [of b, where 'a = nat] by simp
  then have "of_char (char_of (unat b)) = unat b" by simp
  then show ?thesis by (simp add: byte_of_def char_of_byte_def)
qed

lemma string_of_bytes_of [simp, byte_simps]: "string_of (bytes_of s) = s"
  by (simp add: string_of_def bytes_of_def o_def)

lemma bytes_of_string_of [simp, byte_simps]: "bytes_of (string_of bs) = bs"
  by (simp add: string_of_def bytes_of_def o_def)

lemma length_bytes_of [simp, byte_simps]: "length (bytes_of s) = length s"
  by (simp add: bytes_of_def)

lemma length_string_of [simp, byte_simps]: "length (string_of bs) = length bs"
  by (simp add: string_of_def)

lemma unat_byte_of_nat [byte_simps]: "n < 256 \<Longrightarrow> unat (word_of_nat n :: byte) = n"
  by (simp add: unat_of_nat)

section \<open>Error values\<close>

text \<open>
  A Go \<open>error\<close> that the code only creates, wraps, prints and compares. The sentinels the
  source tests with \<open>errors.Is\<close> are constructors of their own; \<open>SysError\<close> is an error a
  system call or the standard library hands up with its own text; \<open>Errorf\<close> carries the text
  of an \<open>errors.New\<close> or a \<open>fmt.Errorf\<close> without \<open>%w\<close>; \<open>Wrapf\<close> is
  \<open>fmt.Errorf("prefix: %w", err)\<close>.
\<close>

datatype go_error =
    EOF
  | ErrUnexpectedEOF
  | ErrClosed
  | ErrClosedPipe
  | Canceled
  | DeadlineExceeded
  | ErrConnectionTakenOver
  | SysError string
  | Errorf string
  | Wrapf string go_error

text \<open>\<open>err.Error()\<close>.\<close>

primrec error_text :: "go_error \<Rightarrow> string" where
  "error_text EOF = ''EOF''"
| "error_text ErrUnexpectedEOF = ''unexpected EOF''"
| "error_text ErrClosed = ''use of closed network connection''"
| "error_text ErrClosedPipe = ''io: read/write on closed pipe''"
| "error_text Canceled = ''context canceled''"
| "error_text DeadlineExceeded = ''context deadline exceeded''"
| "error_text ErrConnectionTakenOver = ''connection taken over''"
| "error_text (SysError s) = s"
| "error_text (Errorf s) = s"
| "error_text (Wrapf p e) = p @ '': '' @ error_text e"

text \<open>\<open>errors.Is(err, target)\<close> for a sentinel \<open>target\<close>: the chain of wrapped errors holds it.\<close>

primrec error_chain :: "go_error \<Rightarrow> go_error list" where
  "error_chain EOF = [EOF]"
| "error_chain ErrUnexpectedEOF = [ErrUnexpectedEOF]"
| "error_chain ErrClosed = [ErrClosed]"
| "error_chain ErrClosedPipe = [ErrClosedPipe]"
| "error_chain Canceled = [Canceled]"
| "error_chain DeadlineExceeded = [DeadlineExceeded]"
| "error_chain ErrConnectionTakenOver = [ErrConnectionTakenOver]"
| "error_chain (SysError s) = [SysError s]"
| "error_chain (Errorf s) = [Errorf s]"
| "error_chain (Wrapf p e) = Wrapf p e # error_chain e"

definition errors_Is :: "go_error \<Rightarrow> go_error \<Rightarrow> bool" where
  "errors_Is e target \<longleftrightarrow> target \<in> set (error_chain e)"

lemma errors_Is_self [simp]: "errors_Is e e"
  by (cases e) (simp_all add: errors_Is_def)

lemma errors_Is_Wrapf [simp]: "errors_Is (Wrapf p e) t \<longleftrightarrow> t = Wrapf p e \<or> errors_Is e t"
  by (auto simp: errors_Is_def)

section \<open>Numbers as text\<close>

text \<open>Decimal (\<open>strconv.Itoa\<close> on a natural number, \<open>%d\<close>) and two hexadecimal digits (\<open>%02x\<close>).\<close>

definition digit_char :: "nat \<Rightarrow> char" where
  "digit_char d = char_of (48 + d)"

definition is_digit :: "char \<Rightarrow> bool" where
  "is_digit c \<longleftrightarrow> 48 \<le> (of_char c :: nat) \<and> (of_char c :: nat) \<le> 57"

definition digit_value :: "char \<Rightarrow> nat" where
  "digit_value c = of_char c - 48"

fun itoa :: "nat \<Rightarrow> string" where
  "itoa n = (if n < 10 then [digit_char n] else itoa (n div 10) @ [digit_char (n mod 10)])"

declare itoa.simps [simp del]

definition hex_digit :: "nat \<Rightarrow> char" where
  "hex_digit d = (if d < 10 then char_of (48 + d) else char_of (87 + d))"

definition hex2 :: "byte \<Rightarrow> string" where
  "hex2 b = [hex_digit (unat b div 16), hex_digit (unat b mod 16)]"

lemma of_char_digit_char [simp]: "d < 10 \<Longrightarrow> of_char (digit_char d) = 48 + d"
  by (simp add: digit_char_def)

lemma is_digit_digit_char [simp]: "d < 10 \<Longrightarrow> is_digit (digit_char d)"
  by (simp add: is_digit_def)

lemma digit_value_digit_char [simp]: "d < 10 \<Longrightarrow> digit_value (digit_char d) = d"
  by (simp add: digit_value_def)

lemma itoa_not_Nil [simp]: "itoa n \<noteq> []"
  by (subst itoa.simps) simp

lemma itoa_digits: "c \<in> set (itoa n) \<Longrightarrow> is_digit c"
proof (induction n arbitrary: c rule: itoa.induct)
  case (1 n)
  then show ?case
    by (subst (asm) itoa.simps) (auto split: if_splits)
qed

lemma itoa_no_char: "\<not> is_digit c \<Longrightarrow> c \<notin> set (itoa n)"
  using itoa_digits by blast

section \<open>Generic list lemmas\<close>

lemma dropWhile_rev_append_stop:
  "\<not> P (last xs) \<Longrightarrow> xs \<noteq> [] \<Longrightarrow> dropWhile P (rev xs) = rev xs"
  by (cases xs rule: rev_cases) simp_all

lemma hd_dropWhile_not: "dropWhile P xs \<noteq> [] \<Longrightarrow> \<not> P (hd (dropWhile P xs))"
  by (rule hd_dropWhile)

lemma dropWhile_append_stop:
  "(\<And>x. x \<in> set xs \<Longrightarrow> P x) \<Longrightarrow> \<not> P y \<Longrightarrow> dropWhile P (xs @ y # ys) = y # ys"
  by simp

lemma take_drop_append_eq:
  "take (length xs) (xs @ ys) = xs" "drop (length xs) (xs @ ys) = ys"
  by simp_all

end
