(* ===== verification/Connection.thy ===== *)
theory Connection
  imports Doppel_Prelude
begin

text \<open>
  A connection as the negotiation code sees it. \<open>rx\<close> is what the peer will still send, \<open>rx_end\<close>
  the error a read meets once that is exhausted (\<open>EOF\<close>, or a timeout when a deadline strikes),
  \<open>tx\<close> what has been written so far and \<open>writes_left\<close> the number of writes that will still
  succeed (\<open>None\<close>: all of them). A program over a connection returns an error or a value and the
  connection; a Go function's early return is the error branch.
\<close>

record conn =
  rx :: bytes
  rx_end :: go_error
  tx :: bytes
  writes_left :: "nat option"

type_synonym 'a io = "conn \<Rightarrow> (go_error + 'a) \<times> conn"

definition io_return :: "'a \<Rightarrow> 'a io" where
  "io_return a c = (Inr a, c)"

definition io_fail :: "go_error \<Rightarrow> 'a io" where
  "io_fail e c = (Inl e, c)"

definition io_bind :: "'a io \<Rightarrow> ('a \<Rightarrow> 'b io) \<Rightarrow> 'b io" where
  "io_bind m f c = (case m c of (Inl e, c') \<Rightarrow> (Inl e, c') | (Inr a, c') \<Rightarrow> f a c')"

text \<open>\<open>if err != nil { return fmt.Errorf("prefix: %w", err) }\<close>\<close>

definition io_wrap :: "string \<Rightarrow> 'a io \<Rightarrow> 'a io" where
  "io_wrap prefix m c = (case m c of (Inl e, c') \<Rightarrow> (Inl (Wrapf prefix e), c') | r \<Rightarrow> r)"

text \<open>\<open>if err := m(); err != nil { h(); return err }\<close>, with \<open>h\<close>'s own result dropped.\<close>

definition io_on_error :: "'a io \<Rightarrow> unit io \<Rightarrow> 'a io" where
  "io_on_error m h c = (case m c of (Inl e, c') \<Rightarrow> (Inl e, snd (h c')) | r \<Rightarrow> r)"

definition io_lift :: "go_error + 'a \<Rightarrow> 'a io" where
  "io_lift r c = (r, c)"

text \<open>\<open>w.Write(bs)\<close>\<close>

definition io_write :: "bytes \<Rightarrow> unit io" where
  "io_write bs c =
     (case writes_left c of
        Some 0 \<Rightarrow> (Inl (SysError ''write: broken pipe''), c)
      | Some (Suc n) \<Rightarrow> (Inr (), c\<lparr>tx := tx c @ bs, writes_left := Some n\<rparr>)
      | None \<Rightarrow> (Inr (), c\<lparr>tx := tx c @ bs\<rparr>))"

text \<open>\<open>io.ReadFull\<close> into a buffer of \<open>n\<close> bytes: a short read of some bytes is \<open>ErrUnexpectedEOF\<close>.\<close>

definition io_read_full :: "nat \<Rightarrow> bytes io" where
  "io_read_full n c =
     (if n \<le> length (rx c) then (Inr (take n (rx c)), c\<lparr>rx := drop n (rx c)\<rparr>)
      else (Inl (if rx c \<noteq> [] \<and> rx_end c = EOF then ErrUnexpectedEOF else rx_end c), c\<lparr>rx := []\<rparr>))"

text \<open>\<open>bufio.Reader.ReadByte\<close> and \<open>Discard(n)\<close>, which report the reader's own error.\<close>

definition io_read_byte :: "byte io" where
  "io_read_byte c =
     (case rx c of [] \<Rightarrow> (Inl (rx_end c), c) | b # r \<Rightarrow> (Inr b, c\<lparr>rx := r\<rparr>))"

definition io_discard :: "nat \<Rightarrow> unit io" where
  "io_discard n c =
     (if n \<le> length (rx c) then (Inr (), c\<lparr>rx := drop n (rx c)\<rparr>)
      else (Inl (rx_end c), c\<lparr>rx := []\<rparr>))"

lemmas io_defs = io_return_def io_fail_def io_bind_def io_wrap_def io_on_error_def io_lift_def

section \<open>Reading input that is there\<close>

text \<open>
  The negotiation proofs run a program on an input that starts with a known message. Each
  primitive consumes exactly its own bytes; the writes are assumed to go through
  (\<open>writes_left c = None\<close>) where a success is claimed.
\<close>

lemma io_read_byte_Cons [io_simps]:
  "rx c = b # r \<Longrightarrow> io_read_byte c = (Inr b, c\<lparr>rx := r\<rparr>)"
  by (simp add: io_read_byte_def)

lemma io_read_full_append [io_simps]:
  "rx c = m @ r \<Longrightarrow> length m = n \<Longrightarrow> io_read_full n c = (Inr m, c\<lparr>rx := r\<rparr>)"
  by (simp add: io_read_full_def)

lemma io_discard_append [io_simps]:
  "rx c = m @ r \<Longrightarrow> length m = n \<Longrightarrow> io_discard n c = (Inr (), c\<lparr>rx := r\<rparr>)"
  by (simp add: io_discard_def)

lemma io_write_None [io_simps]:
  "writes_left c = None \<Longrightarrow> io_write bs c = (Inr (), c\<lparr>tx := tx c @ bs\<rparr>)"
  by (simp add: io_write_def)

lemma io_bind_Inr [io_simps]: "m c = (Inr a, c') \<Longrightarrow> io_bind m f c = f a c'"
  by (simp add: io_bind_def)

lemma io_bind_Inl [io_simps]: "m c = (Inl e, c') \<Longrightarrow> io_bind m f c = (Inl e, c')"
  by (simp add: io_bind_def)

lemma io_wrap_Inr [io_simps]: "m c = (Inr a, c') \<Longrightarrow> io_wrap p m c = (Inr a, c')"
  by (simp add: io_wrap_def)

lemma io_wrap_Inl [io_simps]: "m c = (Inl e, c') \<Longrightarrow> io_wrap p m c = (Inl (Wrapf p e), c')"
  by (simp add: io_wrap_def)

lemma io_on_error_Inr [io_simps]: "m c = (Inr a, c') \<Longrightarrow> io_on_error m h c = (Inr a, c')"
  by (simp add: io_on_error_def)

section \<open>What a program can do to a connection\<close>

text \<open>Inversion of a successful run: each step succeeded.\<close>

lemma io_bind_InrE:
  assumes "io_bind m f c = (Inr b, c'')"
  obtains a c' where "m c = (Inr a, c')" "f a c' = (Inr b, c'')"
  using assms by (auto simp: io_bind_def split: prod.splits sum.splits)

lemma io_wrap_InrD: "io_wrap p m c = (Inr a, c') \<Longrightarrow> m c = (Inr a, c')"
  by (auto simp: io_wrap_def split: prod.splits sum.splits)

lemma io_on_error_InrD: "io_on_error m h c = (Inr a, c') \<Longrightarrow> m c = (Inr a, c')"
  by (auto simp: io_on_error_def split: prod.splits sum.splits)

lemma io_read_byte_InrD:
  "io_read_byte c = (Inr b, c') \<Longrightarrow> rx c = b # rx c' \<and> c' = c\<lparr>rx := rx c'\<rparr>"
  by (auto simp: io_read_byte_def split: list.splits)

lemma io_read_full_InrD:
  "io_read_full n c = (Inr m, c') \<Longrightarrow> rx c = m @ rx c' \<and> length m = n \<and> c' = c\<lparr>rx := rx c'\<rparr>"
  by (auto simp: io_read_full_def split: if_splits)

lemma io_discard_InrD:
  "io_discard n c = (Inr u, c') \<Longrightarrow>
     (\<exists>m. rx c = m @ rx c' \<and> length m = n) \<and> c' = c\<lparr>rx := rx c'\<rparr>"
  by (auto simp: io_discard_def split: if_splits) (metis append_take_drop_id length_take min.absorb2)

lemma io_write_InrD:
  "io_write bs c = (Inr u, c') \<Longrightarrow>
     rx c' = rx c \<and> rx_end c' = rx_end c \<and> tx c' = tx c @ bs"
  by (auto simp: io_write_def split: option.splits nat.splits)

lemma io_return_InrD: "io_return a c = (Inr b, c') \<Longrightarrow> b = a \<and> c' = c"
  by (simp add: io_return_def)

lemma io_fail_not_Inr [simp]: "io_fail e c \<noteq> (Inr b, c')"
  by (simp add: io_fail_def)

lemma tx_io_read_byte [simp]: "tx (snd (io_read_byte c)) = tx c"
  by (simp add: io_read_byte_def split: list.split)

lemma tx_io_read_full [simp]: "tx (snd (io_read_full n c)) = tx c"
  by (simp add: io_read_full_def)

lemma tx_io_discard [simp]: "tx (snd (io_discard n c)) = tx c"
  by (simp add: io_discard_def)

lemma io_bind_InlE:
  assumes "io_bind m f c = (Inl e, c'')"
  obtains "m c = (Inl e, c'')" | a c' where "m c = (Inr a, c')" "f a c' = (Inl e, c'')"
  using assms by (auto simp: io_bind_def split: prod.splits sum.splits)

text \<open>Programs that only read leave the output alone.\<close>

definition silent :: "'a io \<Rightarrow> bool" where
  "silent m \<longleftrightarrow> (\<forall>c. tx (snd (m c)) = tx c)"

lemma silentD: "silent m \<Longrightarrow> m c = (r, c') \<Longrightarrow> tx c' = tx c"
  by (metis silent_def snd_conv)

lemma silent_primitives [intro]:
  "silent io_read_byte" "silent (io_read_full n)" "silent (io_discard n)"
  "silent (io_return a)" "silent (io_fail e)" "silent (io_lift r)"
  by (simp_all add: silent_def io_return_def io_fail_def io_lift_def)

lemma silent_wrap [intro]: "silent m \<Longrightarrow> silent (io_wrap p m)"
  by (auto simp: silent_def io_wrap_def split: prod.split sum.split) (metis snd_conv)+

lemma silent_bind [intro]: "silent m \<Longrightarrow> (\<And>a. silent (f a)) \<Longrightarrow> silent (io_bind m f)"
  by (auto simp: silent_def io_bind_def split: prod.split sum.split) (metis snd_conv)+

lemma silent_If [intro]: "silent m \<Longrightarrow> silent n \<Longrightarrow> silent (if b then m else n)"
  by simp

lemma io_write_InlD: "io_write bs c = (Inl e, c') \<Longrightarrow> c' = c"
  by (auto simp: io_write_def split: option.splits nat.splits)

lemma io_write_cases:
  "io_write bs c = (Inl (SysError ''write: broken pipe''), c) \<or>
   (\<exists>w. io_write bs c = (Inr (), c\<lparr>tx := tx c @ bs, writes_left := w\<rparr>))"
proof (cases "writes_left c")
  case None
  then have "io_write bs c = (Inr (), c\<lparr>tx := tx c @ bs, writes_left := None\<rparr>)"
    by (cases c) (simp add: io_write_def)
  then show ?thesis by blast
next
  case (Some n)
  then show ?thesis by (cases n) (auto simp: io_write_def)
qed

end
