(* ===== verification/Go_Strings.thy ===== *)
theory Go_Strings
  imports Doppel_Prelude
begin

text \<open>
  The functions of Go's \<open>strings\<close> and \<open>strconv\<close> packages that the source calls. Case
  mapping, case-insensitive comparison and white space are those of ASCII: every string the
  source compares with them (header names, host names, profile names, scheme and encoding
  tokens) is ASCII, and bytes above 127 are left alone.
\<close>

section \<open>Case\<close>

definition lower_char :: "char \<Rightarrow> char" where
  "lower_char c = (if 65 \<le> (of_char c :: nat) \<and> (of_char c :: nat) \<le> 90
                   then char_of ((of_char c :: nat) + 32) else c)"

definition upper_char :: "char \<Rightarrow> char" where
  "upper_char c = (if 97 \<le> (of_char c :: nat) \<and> (of_char c :: nat) \<le> 122
                   then char_of ((of_char c :: nat) - 32) else c)"

definition ToLower :: "string \<Rightarrow> string" where
  "ToLower s = map lower_char s"

definition ToUpper :: "string \<Rightarrow> string" where
  "ToUpper s = map upper_char s"

definition EqualFold :: "string \<Rightarrow> string \<Rightarrow> bool" where
  "EqualFold s t \<longleftrightarrow> ToLower s = ToLower t"

lemma of_char_lower_char:
  "(of_char (lower_char c) :: nat) =
     (if 65 \<le> (of_char c :: nat) \<and> (of_char c :: nat) \<le> 90 then of_char c + 32 else of_char c)"
  by (simp add: lower_char_def)

lemma lower_char_idem [simp, str_simps]: "lower_char (lower_char c) = lower_char c"
  by (simp add: lower_char_def)

lemma ToLower_idem [simp, str_simps]: "ToLower (ToLower s) = ToLower s"
  by (simp add: ToLower_def o_def)

lemma ToLower_Nil [simp, str_simps]: "ToLower [] = []"
  by (simp add: ToLower_def)

lemma ToLower_append [str_simps]: "ToLower (s @ t) = ToLower s @ ToLower t"
  by (simp add: ToLower_def)

lemma ToLower_Cons [str_simps]: "ToLower (c # s) = lower_char c # ToLower s"
  by (simp add: ToLower_def)

lemma length_ToLower [simp, str_simps]: "length (ToLower s) = length s"
  by (simp add: ToLower_def)

lemma ToLower_eq_Nil [simp, str_simps]: "ToLower s = [] \<longleftrightarrow> s = []"
  by (simp add: ToLower_def)

lemma EqualFold_refl [simp, str_simps]: "EqualFold s s"
  by (simp add: EqualFold_def)

lemma EqualFold_sym: "EqualFold s t \<Longrightarrow> EqualFold t s"
  by (simp add: EqualFold_def)

lemma EqualFold_trans [trans]: "EqualFold s t \<Longrightarrow> EqualFold t u \<Longrightarrow> EqualFold s u"
  by (simp add: EqualFold_def)

lemma EqualFold_ToLower [simp, str_simps]: "EqualFold (ToLower s) t \<longleftrightarrow> EqualFold s t"
  "EqualFold s (ToLower t) \<longleftrightarrow> EqualFold s t"
  by (simp_all add: EqualFold_def)

text \<open>Case mapping never creates or destroys a character that is not a letter.\<close>

lemma lower_char_eq_nonletter:
  assumes "\<not> (97 \<le> (of_char d :: nat) \<and> (of_char d :: nat) \<le> 122)"
    and "\<not> (65 \<le> (of_char d :: nat) \<and> (of_char d :: nat) \<le> 90)"
  shows "lower_char c = d \<longleftrightarrow> c = d"
proof
  assume eq: "lower_char c = d"
  then have "(of_char (lower_char c) :: nat) = of_char d" by simp
  with assms have "\<not> (65 \<le> (of_char c :: nat) \<and> (of_char c :: nat) \<le> 90)"
    by (auto simp: of_char_lower_char split: if_splits)
  with eq show "c = d" by (auto simp: lower_char_def split: if_splits)
next
  assume "c = d"
  with assms(2) show "lower_char c = d" unfolding lower_char_def by (simp only: if_False)
qed

section \<open>White space\<close>

definition is_space :: "char \<Rightarrow> bool" where
  "is_space c \<longleftrightarrow> (of_char c :: nat) = 32 \<or> (9 \<le> (of_char c :: nat) \<and> (of_char c :: nat) \<le> 13)"

definition TrimSpace :: "string \<Rightarrow> string" where
  "TrimSpace s = rev (dropWhile is_space (rev (dropWhile is_space s)))"

lemma TrimSpace_Nil [simp, str_simps]: "TrimSpace [] = []"
  by (simp add: TrimSpace_def)

lemma TrimSpace_spaces: "(\<And>c. c \<in> set s \<Longrightarrow> is_space c) \<Longrightarrow> TrimSpace s = []"
  by (auto simp: TrimSpace_def dest: set_dropWhileD)

lemma TrimSpace_id:
  assumes "s = [] \<or> (\<not> is_space (hd s) \<and> \<not> is_space (last s))"
  shows "TrimSpace s = s"
proof (cases "s = []")
  case False
  with assms have "dropWhile is_space s = s" by (cases s) auto
  moreover have "dropWhile is_space (rev s) = rev s"
    using assms False by (simp add: dropWhile_rev_append_stop)
  ultimately show ?thesis by (simp add: TrimSpace_def)
qed simp

lemma TrimSpace_ends:
  assumes "TrimSpace s \<noteq> []"
  shows "\<not> is_space (hd (TrimSpace s))" "\<not> is_space (last (TrimSpace s))"
proof -
  let ?t = "dropWhile is_space s"
  let ?u = "dropWhile is_space (rev ?t)"
  have u: "?u \<noteq> []" using assms unfolding TrimSpace_def by simp
  then have t: "?t \<noteq> []" by (metis dropWhile.simps(1) rev.simps(1))
  show "\<not> is_space (last (TrimSpace s))"
    using hd_dropWhile [OF u] u by (simp add: TrimSpace_def last_rev)
  have "rev ?t = takeWhile is_space (rev ?t) @ ?u" by simp
  then have "?t = rev ?u @ rev (takeWhile is_space (rev ?t))"
    by (metis rev_append rev_rev_ident)
  then have "hd ?t = hd (rev ?u)" using u by (metis hd_append2 rev_is_Nil_conv)
  then show "\<not> is_space (hd (TrimSpace s))"
    using hd_dropWhile [OF t] by (simp add: TrimSpace_def)
qed

lemma TrimSpace_idem [simp, str_simps]: "TrimSpace (TrimSpace s) = TrimSpace s"
  by (rule TrimSpace_id) (use TrimSpace_ends in blast)

section \<open>Prefixes, suffixes and substrings\<close>

definition HasPrefix :: "string \<Rightarrow> string \<Rightarrow> bool" where
  "HasPrefix s p \<longleftrightarrow> take (length p) s = p"

definition HasSuffix :: "string \<Rightarrow> string \<Rightarrow> bool" where
  "HasSuffix s p \<longleftrightarrow> length p \<le> length s \<and> drop (length s - length p) s = p"

definition TrimPrefix :: "string \<Rightarrow> string \<Rightarrow> string" where
  "TrimPrefix s p = (if HasPrefix s p then drop (length p) s else s)"

fun str_index :: "string \<Rightarrow> string \<Rightarrow> nat option" where
  "str_index [] sub = (if sub = [] then Some 0 else None)"
| "str_index (c # s) sub =
     (if HasPrefix (c # s) sub then Some 0 else map_option Suc (str_index s sub))"

definition Contains :: "string \<Rightarrow> string \<Rightarrow> bool" where
  "Contains s sub \<longleftrightarrow> str_index s sub \<noteq> None"

text \<open>\<open>strings.Cut\<close>: the text before and after the first separator, and whether it was found.\<close>

definition Cut :: "string \<Rightarrow> string \<Rightarrow> string \<times> string \<times> bool" where
  "Cut s sep = (case str_index s sep of
     None \<Rightarrow> (s, [], False)
   | Some i \<Rightarrow> (take i s, drop (i + length sep) s, True))"

lemma HasPrefix_iff: "HasPrefix s p \<longleftrightarrow> (\<exists>r. s = p @ r)"
  unfolding HasPrefix_def by (metis append_take_drop_id append_eq_conv_conj)

lemma HasSuffix_iff: "HasSuffix s p \<longleftrightarrow> (\<exists>r. s = r @ p)"
proof
  assume "HasSuffix s p"
  then show "\<exists>r. s = r @ p"
    unfolding HasSuffix_def by (metis append_take_drop_id)
next
  assume "\<exists>r. s = r @ p"
  then show "HasSuffix s p" by (auto simp: HasSuffix_def)
qed

lemma HasPrefix_append [simp, str_simps]: "HasPrefix (p @ r) p"
  by (auto simp: HasPrefix_iff)

lemma HasPrefix_Nil [simp, str_simps]: "HasPrefix s []"
  by (simp add: HasPrefix_def)

lemma HasPrefix_Cons [str_simps]:
  "HasPrefix (c # s) (d # p) \<longleftrightarrow> c = d \<and> HasPrefix s p" "\<not> HasPrefix [] (d # p)"
  by (simp_all add: HasPrefix_def)

lemma TrimPrefix_append [simp, str_simps]: "TrimPrefix (p @ r) p = r"
  by (simp add: TrimPrefix_def)

lemma Contains_iff: "Contains s sub \<longleftrightarrow> (\<exists>l r. s = l @ sub @ r)"
proof (induction s)
  case Nil
  show ?case by (auto simp: Contains_def)
next
  case (Cons c s)
  have "(\<exists>l r. c # s = l @ sub @ r) \<longleftrightarrow> HasPrefix (c # s) sub \<or> (\<exists>l r. s = l @ sub @ r)"
    by (auto simp: HasPrefix_iff Cons_eq_append_conv)
  with Cons.IH show ?case by (auto simp: Contains_def)
qed

lemma Contains_append:
  "Contains s sub \<Longrightarrow> Contains (p @ s) sub" "Contains s sub \<Longrightarrow> Contains (s @ q) sub"
  unfolding Contains_iff by (metis append.assoc)+

lemma Cut_append:
  "str_index s sep = Some i \<Longrightarrow> s = take i s @ sep @ drop (i + length sep) s"
proof (induction s arbitrary: i)
  case Nil
  then show ?case by (simp split: if_splits)
next
  case (Cons c s)
  show ?case
  proof (cases "HasPrefix (c # s) sep")
    case True
    with Cons.prems show ?thesis by (auto simp: HasPrefix_iff)
  next
    case False
    with Cons.prems obtain j where j: "str_index s sep = Some j" "i = Suc j" by auto
    from Cons.IH [OF j(1)] j(2) show ?thesis by simp
  qed
qed

section \<open>Splitting at a character\<close>

fun Split :: "string \<Rightarrow> char \<Rightarrow> string list" where
  "Split [] sep = [[]]"
| "Split (c # s) sep =
     (if c = sep then [] # Split s sep
      else (case Split s sep of [] \<Rightarrow> [[c]] | p # ps \<Rightarrow> (c # p) # ps))"

text \<open>\<open>strings.SplitN(s, sep, n)\<close> for a positive \<open>n\<close>: at most \<open>n\<close> parts, the last one whole.\<close>

fun SplitN :: "string \<Rightarrow> char \<Rightarrow> nat \<Rightarrow> string list" where
  "SplitN s sep 0 = []"
| "SplitN s sep (Suc 0) = [s]"
| "SplitN s sep (Suc (Suc n)) =
     (if sep \<in> set s
      then takeWhile (\<lambda>c. c \<noteq> sep) s # SplitN (tl (dropWhile (\<lambda>c. c \<noteq> sep) s)) sep (Suc n)
      else [s])"

definition Join :: "string list \<Rightarrow> string \<Rightarrow> string" where
  "Join parts sep = concat (case parts of [] \<Rightarrow> [] | p # ps \<Rightarrow> p # map (\<lambda>q. sep @ q) ps)"

lemma Split_not_Nil [simp, str_simps]: "Split s sep \<noteq> []"
  by (cases s) (simp_all split: list.split)

lemma Split_no_sep: "p \<in> set (Split s sep) \<Longrightarrow> sep \<notin> set p"
proof (induction s arbitrary: p)
  case (Cons c s)
  then show ?case
    by (cases "Split s sep") (auto split: if_splits)
qed simp

lemma Join_Cons_Cons [str_simps]: "Join (p # q # ps) sep = p @ sep @ Join (q # ps) sep"
  by (simp add: Join_def)

lemma Join_single [simp, str_simps]: "Join [p] sep = p"
  by (simp add: Join_def)

lemma Join_Split: "Join (Split s sep) [sep] = s"
proof (induction s)
  case (Cons c s)
  obtain p ps where sp: "Split s sep = p # ps"
    by (meson Split_not_Nil neq_Nil_conv)
  show ?case
    using Cons.IH sp by (cases ps) (auto simp: Join_def)
qed simp

lemma SplitN_4:
  assumes "sep \<notin> set a" "sep \<notin> set b" "sep \<notin> set c"
  shows "SplitN (a @ sep # b @ sep # c @ sep # d) sep 4 = [a, b, c, d]"
proof -
  have tw: "takeWhile (\<lambda>x. x \<noteq> sep) (u @ sep # v) = u"
    and dw: "dropWhile (\<lambda>x. x \<noteq> sep) (u @ sep # v) = sep # v" if "sep \<notin> set u" for u v
    using that by (induction u) auto
  show ?thesis
    using assms by (simp add: numeral_eq_Suc tw dw)
qed

section \<open>Numbers from text\<close>

text \<open>\<open>strconv.Quote\<close> (the verb \<open>%q\<close>) on ASCII text.\<close>

definition quote_char :: "char \<Rightarrow> string" where
  "quote_char c =
     (if c = CHR 0x22 \<or> c = CHR 0x5C then [CHR 0x5C, c]
      else if c = CHR 0x07 then CHR 0x5C # ''a''
      else if c = CHR 0x08 then CHR 0x5C # ''b''
      else if c = CHR 0x0C then CHR 0x5C # ''f''
      else if c = CHR 0x0A then CHR 0x5C # ''n''
      else if c = CHR 0x0D then CHR 0x5C # ''r''
      else if c = CHR 0x09 then CHR 0x5C # ''t''
      else if c = CHR 0x0B then CHR 0x5C # ''v''
      else if (of_char c :: nat) < 32 \<or> (of_char c :: nat) = 127
      then CHR 0x5C # CHR ''x'' # hex2 (byte_of c)
      else [c])"

definition quote :: "string \<Rightarrow> string" where
  "quote s = CHR 0x22 # concat (map quote_char s) @ [CHR 0x22]"

text \<open>
  \<open>strconv.ParseUint(s, 10, bits)\<close>: the digits from left to right, a syntax error at the first
  character that is not one and a range error as soon as the value passes the maximum.
\<close>

fun parse_digits :: "string \<Rightarrow> nat \<Rightarrow> nat \<Rightarrow> string \<Rightarrow> go_error + nat" where
  "parse_digits whole maxv n [] = Inr n"
| "parse_digits whole maxv n (c # s) =
     (if \<not> is_digit c
      then Inl (SysError (''strconv.ParseUint: parsing '' @ quote whole @ '': invalid syntax''))
      else if maxv < 10 * n + digit_value c
      then Inl (SysError (''strconv.ParseUint: parsing '' @ quote whole @ '': value out of range''))
      else parse_digits whole maxv (10 * n + digit_value c) s)"

definition ParseUint :: "string \<Rightarrow> nat \<Rightarrow> go_error + nat" where
  "ParseUint s bits =
     (if s = [] then Inl (SysError (''strconv.ParseUint: parsing '' @ quote s @ '': invalid syntax''))
      else parse_digits s (2 ^ bits - 1) 0 s)"

text \<open>The decimal value of a digit string, most significant digit first.\<close>

definition decimal :: "nat \<Rightarrow> string \<Rightarrow> nat" where
  "decimal n s = fold (\<lambda>c m. 10 * m + digit_value c) s n"

lemma decimal_mono: "n \<le> decimal n s"
proof (induction s arbitrary: n)
  case (Cons c s)
  have "n \<le> 10 * n + digit_value c" by simp
  also have "\<dots> \<le> decimal (10 * n + digit_value c) s" by (rule Cons.IH)
  finally show ?case by (simp add: decimal_def)
qed (simp add: decimal_def)

lemma decimal_itoa: "decimal 0 (itoa n) = n"
proof (induction n rule: itoa.induct)
  case (1 n)
  then show ?case
    by (subst itoa.simps) (auto simp: decimal_def)
qed

lemma parse_digits_Inr:
  "parse_digits w maxv n s = Inr m \<longleftrightarrow>
     (\<forall>c\<in>set s. is_digit c) \<and> m = decimal n s \<and> (s = [] \<or> m \<le> maxv)"
proof (induction s arbitrary: n)
  case Nil
  show ?case by (auto simp: decimal_def)
next
  case (Cons c s)
  let ?n = "10 * n + digit_value c"
  have step: "decimal n (c # s) = decimal ?n s" by (simp add: decimal_def)
  have "s = [] \<Longrightarrow> decimal ?n s = ?n" by (simp add: decimal_def)
  with Cons.IH [of ?n] decimal_mono [of ?n s] show ?case
    by (auto simp: step)
qed

lemma ParseUint_Inr:
  "ParseUint s bits = Inr m \<longleftrightarrow>
     s \<noteq> [] \<and> (\<forall>c\<in>set s. is_digit c) \<and> m = decimal 0 s \<and> m \<le> 2 ^ bits - 1"
  by (auto simp: ParseUint_def parse_digits_Inr)

lemma ParseUint_itoa: "n < 2 ^ bits \<Longrightarrow> ParseUint (itoa n) bits = Inr n"
  by (auto simp: ParseUint_Inr decimal_itoa dest: itoa_digits)

end
