(* ===== verification/Http_Header.thy ===== *)
theory Http_Header
  imports Go_Strings "HOL-Library.AList" "HOL-Library.Multiset"
begin

text \<open>
  Go's \<open>http.Header\<close>, a \<open>map[string][]string\<close> with canonicalised keys. A header is modelled
  as an association list with distinct keys: as a map it is its lookup function, and the order
  of its entries is one of the orders in which \<open>range\<close> may visit them. What the source computes
  from a header is proved not to depend on that order wherever that is true.
\<close>

type_synonym header = "(string \<times> string list) list"

text \<open>\<open>textproto.CanonicalMIMEHeaderKey\<close>: a key with a byte that is no token character is left alone.\<close>

definition is_token_char :: "char \<Rightarrow> bool" where
  "is_token_char c \<longleftrightarrow>
     is_digit c \<or> (65 \<le> (of_char c :: nat) \<and> (of_char c :: nat) \<le> 90)
     \<or> (97 \<le> (of_char c :: nat) \<and> (of_char c :: nat) \<le> 122)
     \<or> List.member ''!#$%&'' c \<or> c = CHR 0x27 \<or> List.member ''*+-.^_`|~'' c"

fun canon_chars :: "bool \<Rightarrow> string \<Rightarrow> string" where
  "canon_chars up [] = []"
| "canon_chars up (c # s) =
     (if up then upper_char c else lower_char c) # canon_chars (c = CHR ''-'') s"

definition CanonicalHeaderKey :: "string \<Rightarrow> string" where
  "CanonicalHeaderKey s = (if list_all is_token_char s then canon_chars True s else s)"

definition header_wf :: "header \<Rightarrow> bool" where
  "header_wf h \<longleftrightarrow> distinct (map fst h)"

text \<open>Direct map accesses, \<open>h[key]\<close> and \<open>h[key] = values\<close>.\<close>

definition header_index :: "header \<Rightarrow> string \<Rightarrow> string list option" where
  "header_index h k = map_of h k"

definition header_assign :: "header \<Rightarrow> string \<Rightarrow> string list \<Rightarrow> header" where
  "header_assign h k vs = AList.update k vs h"

text \<open>The methods \<open>Get\<close>, \<open>Set\<close>, \<open>Add\<close> and \<open>Del\<close>, which canonicalise the key.\<close>

definition header_Get :: "header \<Rightarrow> string \<Rightarrow> string" where
  "header_Get h k = (case header_index h (CanonicalHeaderKey k) of
     Some (v # _) \<Rightarrow> v | _ \<Rightarrow> [])"

definition header_Set :: "header \<Rightarrow> string \<Rightarrow> string \<Rightarrow> header" where
  "header_Set h k v = header_assign h (CanonicalHeaderKey k) [v]"

definition header_Add :: "header \<Rightarrow> string \<Rightarrow> string \<Rightarrow> header" where
  "header_Add h k v =
     (let key = CanonicalHeaderKey k
      in header_assign h key ((case header_index h key of None \<Rightarrow> [] | Some vs \<Rightarrow> vs) @ [v]))"

definition header_Del :: "header \<Rightarrow> string \<Rightarrow> header" where
  "header_Del h k = AList.delete (CanonicalHeaderKey k) h"

section \<open>Canonical keys\<close>

lemma letter_token:
  "65 \<le> (of_char c :: nat) \<Longrightarrow> (of_char c :: nat) \<le> 90 \<Longrightarrow> is_token_char c"
  "97 \<le> (of_char c :: nat) \<Longrightarrow> (of_char c :: nat) \<le> 122 \<Longrightarrow> is_token_char c"
  by (simp_all add: is_token_char_def)

lemma token_upper_lower:
  "is_token_char (upper_char c) \<longleftrightarrow> is_token_char c"
  "is_token_char (lower_char c) \<longleftrightarrow> is_token_char c"
proof -
  show "is_token_char (upper_char c) \<longleftrightarrow> is_token_char c"
    using letter_token(2) [of c] letter_token(1) [of "upper_char c"]
    by (cases "97 \<le> (of_char c :: nat) \<and> (of_char c :: nat) \<le> 122") (auto simp: upper_char_def)
  show "is_token_char (lower_char c) \<longleftrightarrow> is_token_char c"
    using letter_token(1) [of c] letter_token(2) [of "lower_char c"]
    by (cases "65 \<le> (of_char c :: nat) \<and> (of_char c :: nat) \<le> 90") (auto simp: lower_char_def)
qed

lemma upper_lower_char [simp, str_simps]:
  "upper_char (upper_char c) = upper_char c"
  "lower_char (upper_char c) = lower_char c"
  by (auto simp: upper_char_def lower_char_def)

lemma dash_case:
  "upper_char c = CHR ''-'' \<longleftrightarrow> c = CHR ''-''" "lower_char c = CHR ''-'' \<longleftrightarrow> c = CHR ''-''"
proof -
  show low: "lower_char c = CHR ''-'' \<longleftrightarrow> c = CHR ''-''" for c
    by (rule lower_char_eq_nonletter) simp_all
  have "lower_char (upper_char c) = CHR ''-'' \<longleftrightarrow> upper_char c = CHR ''-''" by (rule low)
  then show "upper_char c = CHR ''-'' \<longleftrightarrow> c = CHR ''-''"
    using low [of c] by simp
qed

lemma canon_chars_idem: "canon_chars up (canon_chars up s) = canon_chars up s"
  by (induction s arbitrary: up) (auto simp: dash_case)

lemma list_all_canon_chars: "list_all is_token_char (canon_chars up s) = list_all is_token_char s"
  by (induction s arbitrary: up) (auto simp: token_upper_lower)

lemma CanonicalHeaderKey_idem [simp, header_simps]:
  "CanonicalHeaderKey (CanonicalHeaderKey s) = CanonicalHeaderKey s"
  by (simp add: CanonicalHeaderKey_def list_all_canon_chars canon_chars_idem)

lemma ToLower_canon_chars: "ToLower (canon_chars up s) = ToLower s"
  by (induction s arbitrary: up) (auto simp: ToLower_Cons)

lemma ToLower_CanonicalHeaderKey [simp, header_simps]:
  "ToLower (CanonicalHeaderKey s) = ToLower s"
  by (simp add: CanonicalHeaderKey_def ToLower_canon_chars)

text \<open>For token keys, canonical equality is equality up to case.\<close>

lemma canon_chars_fold: "ToLower s = ToLower t \<Longrightarrow> canon_chars up s = canon_chars up t"
proof (induction s arbitrary: t up)
  case (Cons c s)
  then obtain d r where t: "t = d # r" by (cases t) (auto simp: ToLower_Cons)
  with Cons.prems have cd: "lower_char c = lower_char d" and r: "ToLower s = ToLower r"
    by (simp_all add: ToLower_Cons)
  have "(c = CHR ''-'') = (d = CHR ''-'')" using cd dash_case(2) by metis
  moreover have "upper_char c = upper_char d"
  proof -
    have "upper_char (lower_char x) = upper_char x" for x
      by (auto simp: upper_char_def lower_char_def)
    with cd show ?thesis by metis
  qed
  ultimately show ?case using Cons.IH [OF r] cd t by simp
qed (simp add: ToLower_def)

lemma CanonicalHeaderKey_eq_iff:
  assumes "list_all is_token_char s" "list_all is_token_char t"
  shows "CanonicalHeaderKey s = CanonicalHeaderKey t \<longleftrightarrow> EqualFold s t"
  using assms canon_chars_fold [of s t True] ToLower_CanonicalHeaderKey
  by (auto simp: EqualFold_def CanonicalHeaderKey_def) (metis ToLower_canon_chars)

section \<open>The contract of a header store\<close>

text \<open>
  What the clients of a header (the profile's rewriting, the removal of hop-by-hop headers, the
  request writer, the response decoder) rely on: a write or a delete changes the canonical key
  only, and keeps the representation well formed.
\<close>

locale header_store =
  fixes canon :: "string \<Rightarrow> string"
    and lookup :: "'h \<Rightarrow> string \<Rightarrow> string list option"
    and put :: "'h \<Rightarrow> string \<Rightarrow> string \<Rightarrow> 'h"
    and del :: "'h \<Rightarrow> string \<Rightarrow> 'h"
    and wf :: "'h \<Rightarrow> bool"
  assumes canon_idem: "canon (canon k) = canon k"
    and lookup_put: "wf h \<Longrightarrow> lookup (put h k v) k' = (if k' = canon k then Some [v] else lookup h k')"
    and lookup_del: "wf h \<Longrightarrow> lookup (del h k) k' = (if k' = canon k then None else lookup h k')"
    and wf_put: "wf h \<Longrightarrow> wf (put h k v)"
    and wf_del: "wf h \<Longrightarrow> wf (del h k)"
begin

lemma wf_del_all: "wf h \<Longrightarrow> wf (fold (\<lambda>k h. del h k) ks h)"
  by (induction ks arbitrary: h) (simp_all add: wf_del)

lemma lookup_del_all:
  "wf h \<Longrightarrow> lookup (fold (\<lambda>k h. del h k) ks h) k' =
     (if k' \<in> canon ` set ks then None else lookup h k')"
  by (induction ks arbitrary: h) (auto simp: wf_del lookup_del)

lemma wf_put_all: "wf h \<Longrightarrow> wf (fold (\<lambda>(k, v) h. put h k v) kvs h)"
  by (induction kvs arbitrary: h) (auto simp: wf_put)

lemma lookup_put_all_other:
  "wf h \<Longrightarrow> k' \<notin> canon ` fst ` set kvs \<Longrightarrow>
     lookup (fold (\<lambda>(k, v) h. put h k v) kvs h) k' = lookup h k'"
  by (induction kvs arbitrary: h) (auto simp: wf_put lookup_put)

text \<open>With distinct canonical keys every pair's value survives, whatever the order of the writes.\<close>

lemma lookup_put_all:
  assumes "wf h" "distinct (map (canon \<circ> fst) kvs)" "(k, v) \<in> set kvs"
  shows "lookup (fold (\<lambda>(k, v) h. put h k v) kvs h) (canon k) = Some [v]"
  using assms
proof (induction kvs arbitrary: h)
  case (Cons kv kvs)
  obtain k1 v1 where kv: "kv = (k1, v1)" by force
  show ?case
  proof (cases "(k, v) = kv")
    case True
    with Cons.prems kv have "canon k \<notin> canon ` fst ` set kvs"
      by (auto simp: image_comp)
    with Cons.prems(1) True kv show ?thesis
      by (simp add: lookup_put_all_other wf_put lookup_put)
  next
    case False
    with Cons.prems kv have "lookup (fold (\<lambda>(k, v) h. put h k v) kvs (put h k1 v1)) (canon k) = Some [v]"
      by (intro Cons.IH) (auto simp: wf_put)
    with kv show ?thesis by simp
  qed
qed simp

lemma put_all_order_independent:
  assumes "wf h" "distinct (map (canon \<circ> fst) kvs)" "mset kvs = mset kvs'"
  shows "lookup (fold (\<lambda>(k, v) h. put h k v) kvs h) k' = lookup (fold (\<lambda>(k, v) h. put h k v) kvs' h) k'"
proof (cases "k' \<in> canon ` fst ` set kvs")
  case True
  then obtain k v where kv: "(k, v) \<in> set kvs" "k' = canon k" by auto
  have s: "set kvs' = set kvs" using assms(3) by (metis mset_eq_setD)
  have "mset (map (canon \<circ> fst) kvs) = mset (map (canon \<circ> fst) kvs')"
    using assms(3) by (simp only: mset_map)
  then have "distinct (map (canon \<circ> fst) kvs')"
    using assms(2) by (metis mset_eq_imp_distinct_iff)
  with assms kv s show ?thesis by (simp add: lookup_put_all)
next
  case False
  then have "k' \<notin> canon ` fst ` set kvs'" using assms(3) by (metis mset_eq_setD)
  with False assms(1) show ?thesis by (simp add: lookup_put_all_other)
qed

end

lemma header_wf_assign: "header_wf h \<Longrightarrow> header_wf (header_assign h k vs)"
  by (simp add: header_wf_def header_assign_def distinct_update)

lemma header_wf_Set: "header_wf h \<Longrightarrow> header_wf (header_Set h k v)"
  by (simp add: header_Set_def header_wf_assign)

lemma header_wf_Add: "header_wf h \<Longrightarrow> header_wf (header_Add h k v)"
  by (simp add: header_Add_def Let_def header_wf_assign)

lemma header_wf_Del: "header_wf h \<Longrightarrow> header_wf (header_Del h k)"
  by (simp add: header_wf_def header_Del_def distinct_delete)

lemma header_index_assign [header_simps]:
  "header_index (header_assign h k vs) k' = (if k' = k then Some vs else header_index h k')"
  by (simp add: header_index_def header_assign_def update_conv')

lemma header_index_Del [header_simps]:
  "header_index (header_Del h k) k' =
     (if k' = CanonicalHeaderKey k then None else header_index h k')"
  by (simp add: header_index_def header_Del_def delete_conv')

interpretation hdr: header_store CanonicalHeaderKey header_index header_Set header_Del header_wf
  by unfold_locales
    (simp_all add: header_wf_assign header_wf_Del header_Set_def header_index_assign header_index_Del)

lemma header_Get_Set [simp, header_simps]:
  "header_Get (header_Set h k v) k' =
     (if CanonicalHeaderKey k' = CanonicalHeaderKey k then v else header_Get h k')"
  by (simp add: header_Get_def header_Set_def header_index_assign)

lemma header_Get_Del [simp, header_simps]:
  "header_Get (header_Del h k) k' =
     (if CanonicalHeaderKey k' = CanonicalHeaderKey k then [] else header_Get h k')"
  by (simp add: header_Get_def header_index_Del)

end
