(* ===== verification/Stable_Sort.thy ===== *)
theory Stable_Sort
  imports Doppel_Prelude "HOL-Library.Multiset"
begin

text \<open>
  The contract of Go's \<open>sort.SliceStable(xs, less)\<close>: for a strict weak order \<open>lt\<close> the result
  is the one list with the same elements, in order, with equivalent elements in their original
  order. \<open>SliceStable\<close> computes it by insertion. The locale states what a caller's
  comparison has to promise; the callers interpret it at their own comparisons.
\<close>

fun insert_stable :: "('a \<Rightarrow> 'a \<Rightarrow> bool) \<Rightarrow> 'a \<Rightarrow> 'a list \<Rightarrow> 'a list" where
  "insert_stable lt x [] = [x]"
| "insert_stable lt x (y # ys) = (if lt y x then y # insert_stable lt x ys else x # y # ys)"

definition SliceStable :: "('a \<Rightarrow> 'a \<Rightarrow> bool) \<Rightarrow> 'a list \<Rightarrow> 'a list" where
  "SliceStable lt xs = foldr (insert_stable lt) xs []"

lemma SliceStable_Nil [simp]: "SliceStable lt [] = []"
  by (simp add: SliceStable_def)

lemma SliceStable_Cons [simp]:
  "SliceStable lt (x # xs) = insert_stable lt x (SliceStable lt xs)"
  by (simp add: SliceStable_def)

lemma mset_insert_stable [simp]: "mset (insert_stable lt x ys) = {#x#} + mset ys"
  by (induction ys) simp_all

lemma mset_SliceStable [simp]: "mset (SliceStable lt xs) = mset xs"
  by (induction xs) simp_all

lemma set_SliceStable [simp]: "set (SliceStable lt xs) = set xs"
  by (rule mset_eq_setD) simp

lemma set_insert_stable [simp]: "set (insert_stable lt x ys) = insert x (set ys)"
  by (metis mset_insert_stable set_mset_add_mset_insert set_mset_mset add_mset_add_single union_commute)

locale strict_weak_order =
  fixes lt :: "'a \<Rightarrow> 'a \<Rightarrow> bool"
  assumes lt_irrefl: "\<not> lt x x"
    and lt_trans: "lt x y \<Longrightarrow> lt y z \<Longrightarrow> lt x z"
    and lt_split: "lt x z \<Longrightarrow> lt x y \<or> lt y z"
begin

lemma lt_asym: "lt x y \<Longrightarrow> \<not> lt y x"
  using lt_irrefl lt_trans by blast

lemma not_lt_trans: "\<not> lt y x \<Longrightarrow> \<not> lt z y \<Longrightarrow> \<not> lt z x"
  using lt_split by blast

lemma sorted_insert_stable:
  "sorted_wrt (\<lambda>a b. \<not> lt b a) ys \<Longrightarrow> sorted_wrt (\<lambda>a b. \<not> lt b a) (insert_stable lt x ys)"
  by (induction ys) (auto dest: lt_asym not_lt_trans)

lemma sorted_SliceStable: "sorted_wrt (\<lambda>a b. \<not> lt b a) (SliceStable lt xs)"
  by (induction xs) (simp_all add: sorted_insert_stable)

text \<open>Stability: the elements equivalent to a given one keep their order.\<close>

lemma filter_insert_stable:
  "filter (\<lambda>b. \<not> lt a b \<and> \<not> lt b a) (insert_stable lt x ys) =
   filter (\<lambda>b. \<not> lt a b \<and> \<not> lt b a) (x # ys)"
proof (induction ys)
  case (Cons y ys)
  have "lt y x \<Longrightarrow> \<not> (\<not> lt a x \<and> \<not> lt x a \<and> \<not> lt a y \<and> \<not> lt y a)"
    using lt_split [of y x a] by blast
  with Cons.IH show ?case by auto
qed simp

lemma stable_SliceStable:
  "filter (\<lambda>b. \<not> lt a b \<and> \<not> lt b a) (SliceStable lt xs) =
   filter (\<lambda>b. \<not> lt a b \<and> \<not> lt b a) xs"
  by (induction xs) (simp_all add: filter_insert_stable)

text \<open>Where no two elements are equivalent, the result depends on the elements alone.\<close>

lemma sorted_unique:
  assumes "sorted_wrt (\<lambda>a b. \<not> lt b a) xs" "sorted_wrt (\<lambda>a b. \<not> lt b a) ys"
    and "mset xs = mset ys"
    and "\<And>a b. a \<in> set xs \<Longrightarrow> b \<in> set xs \<Longrightarrow> a \<noteq> b \<Longrightarrow> lt a b \<or> lt b a"
  shows "xs = ys"
  using assms
proof (induction xs arbitrary: ys)
  case (Cons x xs)
  then obtain y zs where ys: "ys = y # zs" by (cases ys) auto
  have "set (x # xs) = set ys" using Cons.prems(3) by (metis mset_eq_setD)
  then have "x \<in> set ys" "y \<in> set (x # xs)" using ys by auto
  then have "\<not> lt x y \<or> x = y" "\<not> lt y x \<or> x = y"
    using Cons.prems(1,2) ys by auto
  then have xy: "x = y" using Cons.prems(4) \<open>y \<in> set (x # xs)\<close> by auto
  with Cons.prems ys have "xs = zs" by (intro Cons.IH) auto
  with xy ys show ?case by simp
qed simp

lemma SliceStable_unique:
  assumes "mset xs = mset ys"
    and "\<And>a b. a \<in> set xs \<Longrightarrow> b \<in> set xs \<Longrightarrow> a \<noteq> b \<Longrightarrow> lt a b \<or> lt b a"
  shows "SliceStable lt xs = SliceStable lt ys"
  by (rule sorted_unique) (use assms in \<open>simp_all add: sorted_SliceStable\<close>)

end

text \<open>The order of Go's \<open>sort.Strings\<close>: the bytes of the strings, lexicographically.\<close>

interpretation string_order: strict_weak_order "(<) :: string \<Rightarrow> string \<Rightarrow> bool"
  by unfold_locales auto

definition sort_Strings :: "string list \<Rightarrow> string list" where
  "sort_Strings xs = SliceStable (<) xs"

lemma sorted_sort_Strings: "sorted (sort_Strings xs)"
proof -
  have "sorted_wrt (\<lambda>a b. \<not> b < a) (sort_Strings xs)"
    unfolding sort_Strings_def by (rule string_order.sorted_SliceStable)
  then show ?thesis by (simp add: not_less)
qed

lemma mset_sort_Strings [simp]: "mset (sort_Strings xs) = mset xs"
  by (simp add: sort_Strings_def)

lemma set_sort_Strings [simp]: "set (sort_Strings xs) = set xs"
  by (simp add: sort_Strings_def)

lemma sort_Strings_perm: "mset xs = mset ys \<Longrightarrow> sort_Strings xs = sort_Strings ys"
  unfolding sort_Strings_def by (rule string_order.SliceStable_unique) auto

end
