(* ===== verification/Go_Net.thy ===== *)
theory Go_Net
  imports Go_Strings
begin

text \<open>
  The functions of Go's \<open>net\<close> package that the source calls on addresses: splitting and joining
  \<open>host:port\<close>, parsing an IP literal and printing an address.  The definitions follow the
  standard library's own loops and error order, because the proxy's decisions (which host is
  dialled, which certificate is minted, which SOCKS5 address type is sent) hang on them.
\<close>

section \<open>host:port\<close>

definition index_byte :: "string \<Rightarrow> char \<Rightarrow> nat option" where
  "index_byte s c = (if c \<in> set s then Some (length (takeWhile (\<lambda>x. x \<noteq> c) s)) else None)"

definition last_index_byte :: "string \<Rightarrow> char \<Rightarrow> nat option" where
  "last_index_byte s c =
     (if c \<in> set s then Some (length s - Suc (length (takeWhile (\<lambda>x. x \<noteq> c) (rev s)))) else None)"

definition addr_error :: "string \<Rightarrow> string \<Rightarrow> go_error" where
  "addr_error addr why =
     SysError (if addr = [] then why else ''address '' @ addr @ '': '' @ why)"

definition split_checked ::
  "string \<Rightarrow> string \<Rightarrow> nat \<Rightarrow> nat \<Rightarrow> nat \<Rightarrow> go_error + (string \<times> string)" where
  "split_checked hp host j k i =
     (if CHR ''['' \<in> set (drop j hp) then Inl (addr_error hp ''unexpected '[' in address'')
      else if CHR '']'' \<in> set (drop k hp) then Inl (addr_error hp ''unexpected ']' in address'')
      else Inr (host, drop (Suc i) hp))"

definition SplitHostPort :: "string \<Rightarrow> go_error + (string \<times> string)" where
  "SplitHostPort hp =
     (case last_index_byte hp (CHR '':'') of
        None \<Rightarrow> Inl (addr_error hp ''missing port in address'')
      | Some i \<Rightarrow>
          if hd hp = CHR ''['' then
            (case index_byte hp (CHR '']'') of
               None \<Rightarrow> Inl (addr_error hp ''missing ']' in address'')
             | Some e \<Rightarrow>
                 if Suc e = length hp then Inl (addr_error hp ''missing port in address'')
                 else if Suc e = i then split_checked hp (take (e - 1) (tl hp)) 1 (Suc e) i
                 else if hp ! Suc e = CHR '':'' then Inl (addr_error hp ''too many colons in address'')
                 else Inl (addr_error hp ''missing port in address''))
          else if CHR '':'' \<in> set (take i hp) then Inl (addr_error hp ''too many colons in address'')
          else split_checked hp (take i hp) 0 0 i)"

definition JoinHostPort :: "string \<Rightarrow> string \<Rightarrow> string" where
  "JoinHostPort host port =
     (if CHR '':'' \<in> set host then ''['' @ host @ '']:'' @ port else host @ '':'' @ port)"

text \<open>A host and a port that a joined address splits back into.\<close>

definition plain_host :: "string \<Rightarrow> bool" where
  "plain_host h \<longleftrightarrow> CHR ''['' \<notin> set h \<and> CHR '']'' \<notin> set h"

definition plain_port :: "string \<Rightarrow> bool" where
  "plain_port p \<longleftrightarrow> CHR ''['' \<notin> set p \<and> CHR '']'' \<notin> set p \<and> CHR '':'' \<notin> set p"

lemma takeWhile_neq_append:
  "c \<notin> set u \<Longrightarrow> takeWhile (\<lambda>x. x \<noteq> c) (u @ c # v) = u"
  by (induction u) auto

lemma index_byte_append: "c \<notin> set u \<Longrightarrow> index_byte (u @ c # v) c = Some (length u)"
  by (simp add: index_byte_def takeWhile_neq_append)

lemma last_index_byte_append: "c \<notin> set v \<Longrightarrow> last_index_byte (u @ c # v) c = Some (length u)"
  by (simp add: last_index_byte_def takeWhile_neq_append)

lemma last_index_byte_Some:
  assumes "last_index_byte s c = Some i"
  shows "s = take i s @ c # drop (Suc i) s" "c \<notin> set (drop (Suc i) s)" "i < length s"
proof -
  from assms have c: "c \<in> set s" by (auto simp: last_index_byte_def split: if_splits)
  then obtain u v where uv: "s = u @ c # v" "c \<notin> set v"
    by (meson split_list_last)
  with assms have "i = length u" by (simp add: last_index_byte_append)
  with uv show "s = take i s @ c # drop (Suc i) s" "c \<notin> set (drop (Suc i) s)" "i < length s"
    by simp_all
qed

lemma index_byte_Some:
  assumes "index_byte s c = Some i"
  shows "s = take i s @ c # drop (Suc i) s" "c \<notin> set (take i s)" "i < length s"
proof -
  from assms have c: "c \<in> set s" by (auto simp: index_byte_def split: if_splits)
  then obtain u v where uv: "s = u @ c # v" "c \<notin> set u"
    by (meson split_list_first)
  with assms have "i = length u" by (simp add: index_byte_append)
  with uv show "s = take i s @ c # drop (Suc i) s" "c \<notin> set (take i s)" "i < length s"
    by simp_all
qed

theorem SplitHostPort_JoinHostPort:
  assumes "plain_host h" "plain_port p"
  shows "SplitHostPort (JoinHostPort h p) = Inr (h, p)"
proof (cases "CHR '':'' \<in> set h")
  case True
  let ?s = "CHR ''['' # h @ CHR '']'' # CHR '':'' # p"
  have j: "JoinHostPort h p = ?s" using True by (simp add: JoinHostPort_def)
  have "last_index_byte ((CHR ''['' # h @ [CHR '']'']) @ CHR '':'' # p) (CHR '':'') =
      Some (length (CHR ''['' # h @ [CHR '']'']))"
    using assms(2) by (intro last_index_byte_append) (simp add: plain_port_def)
  then have li: "last_index_byte ?s (CHR '':'') = Some (Suc (Suc (length h)))" by simp
  have "index_byte ((CHR ''['' # h) @ CHR '']'' # CHR '':'' # p) (CHR '']'') =
      Some (length (CHR ''['' # h))"
    using assms(1) by (intro index_byte_append) (simp add: plain_host_def)
  then have ix: "index_byte ?s (CHR '']'') = Some (Suc (length h))" by simp
  show ?thesis
    using assms unfolding j SplitHostPort_def li ix
    by (auto simp: split_checked_def plain_host_def plain_port_def)
next
  case False
  let ?s = "h @ CHR '':'' # p"
  have j: "JoinHostPort h p = ?s" using False by (simp add: JoinHostPort_def)
  have li: "last_index_byte ?s (CHR '':'') = Some (length h)"
    using assms(2) by (intro last_index_byte_append) (simp add: plain_port_def)
  have "hd ?s \<noteq> CHR ''[''" using assms(1) by (cases h) (auto simp: plain_host_def)
  then show ?thesis
    using assms False unfolding j SplitHostPort_def li
    by (auto simp: split_checked_def plain_host_def plain_port_def)
qed

text \<open>Whatever \<open>SplitHostPort\<close> returns is plain, so joining it again is stable.\<close>

lemma SplitHostPort_plain:
  assumes "SplitHostPort s = Inr (h, p)"
  shows "plain_host h" "plain_port p"
proof -
  from assms obtain i where i: "last_index_byte s (CHR '':'') = Some i"
    by (auto simp: SplitHostPort_def split: option.splits)
  note li = last_index_byte_Some [OF i]
  have "plain_host h \<and> plain_port p"
  proof (cases "hd s = CHR ''[''")
    case False
    with assms i have "split_checked s (take i s) 0 0 i = Inr (h, p)"
      by (auto simp: SplitHostPort_def split: if_splits)
    with li(2) show ?thesis
      by (auto simp: split_checked_def plain_host_def plain_port_def split: if_splits
          dest: in_set_takeD in_set_dropD)
  next
    case True
    with assms i obtain e where e: "index_byte s (CHR '']'') = Some e"
      by (auto simp: SplitHostPort_def split: option.splits)
    from assms i e True have sc: "split_checked s (take (e - 1) (tl s)) 1 (Suc e) i = Inr (h, p)"
      and ei: "Suc e = i"
      by (auto simp: SplitHostPort_def split: if_splits)
    have dr: "set (drop (Suc i) s) \<subseteq> set (drop 1 s)" "set (drop (Suc i) s) \<subseteq> set (drop (Suc e) s)"
      using ei by (simp_all add: set_drop_subset_set_drop)
    have tk: "set (take (e - 1) (tl s)) \<subseteq> set (take e s)"
      by (cases s; cases e) (auto dest: in_set_takeD)
    show ?thesis
      using sc li(2) index_byte_Some(2) [OF e] dr tk
      by (auto simp: split_checked_def plain_host_def plain_port_def drop_Suc split: if_splits
          dest: in_set_takeD)
  qed
  then show "plain_host h" "plain_port p" by simp_all
qed

section \<open>IP addresses\<close>

text \<open>\<open>net.IP\<close> is a byte slice of length 4 or 16.\<close>

definition v4_in_v6_prefix :: bytes where
  "v4_in_v6_prefix = replicate 10 0 @ [0xff, 0xff]"

definition To4 :: "bytes \<Rightarrow> bytes option" where
  "To4 ip = (if length ip = 4 then Some ip
             else if length ip = 16 \<and> take 12 ip = v4_in_v6_prefix then Some (drop 12 ip)
             else None)"

definition To16 :: "bytes \<Rightarrow> bytes option" where
  "To16 ip = (if length ip = 4 then Some (v4_in_v6_prefix @ ip)
              else if length ip = 16 then Some ip else None)"

fun v4_fields :: "string \<Rightarrow> nat \<Rightarrow> nat \<Rightarrow> bytes \<Rightarrow> bytes option" where
  "v4_fields [] val digLen fs = (if length fs < 3 then None else Some (fs @ [word_of_nat val]))"
| "v4_fields (c # s) val digLen fs =
     (if is_digit c then
        (if digLen = 1 \<and> val = 0 then None
         else if 255 < val * 10 + digit_value c then None
         else v4_fields s (val * 10 + digit_value c) (Suc digLen) fs)
      else if c = CHR ''.'' then
        (if digLen = 0 \<or> s = [] then None
         else if length fs = 3 then None
         else v4_fields s 0 0 (fs @ [word_of_nat val]))
      else None)"

definition is_hex :: "char \<Rightarrow> bool" where
  "is_hex c \<longleftrightarrow> is_digit c \<or> (97 \<le> (of_char c :: nat) \<and> (of_char c :: nat) \<le> 102)
     \<or> (65 \<le> (of_char c :: nat) \<and> (of_char c :: nat) \<le> 70)"

definition hex_value :: "char \<Rightarrow> nat" where
  "hex_value c = (if is_digit c then digit_value c
                  else if 97 \<le> (of_char c :: nat) then of_char c - 87 else of_char c - 55)"

definition hex_number :: "string \<Rightarrow> nat" where
  "hex_number s = fold (\<lambda>c m. 16 * m + hex_value c) s 0"

text \<open>
  The loop of \<open>netip.parseIPv6\<close>: at most \<open>k\<close> more groups, the rest of the text, the bytes so far
  and the position of the ellipsis. A result is the text left over, the bytes and the ellipsis.
\<close>

fun v6_groups :: "nat \<Rightarrow> string \<Rightarrow> bytes \<Rightarrow> nat option \<Rightarrow> (string \<times> bytes \<times> nat option) option" where
  "v6_groups 0 s ip ell = Some (s, ip, ell)"
| "v6_groups (Suc k) s ip ell =
     (let ds = takeWhile is_hex s; rest = dropWhile is_hex s; acc = hex_number ds;
          ip' = ip @ [word_of_nat (acc div 256), word_of_nat (acc mod 256)]
      in if ds = [] \<or> 4 < length ds then None
         else if rest \<noteq> [] \<and> hd rest = CHR ''.'' then
           (if ell = None \<and> length ip \<noteq> 12 then None
            else if 16 < length ip + 4 then None
            else (case v4_fields s 0 0 [] of None \<Rightarrow> None | Some f \<Rightarrow> Some ([], ip @ f, ell)))
         else if rest = [] then Some ([], ip', ell)
         else if hd rest \<noteq> CHR '':'' \<or> tl rest = [] then None
         else if hd (tl rest) = CHR '':'' then
           (if ell \<noteq> None then None
            else if tl (tl rest) = [] then Some ([], ip', Some (length ip'))
            else v6_groups k (tl (tl rest)) ip' (Some (length ip')))
         else v6_groups k (tl rest) ip' ell)"

definition v6_finish :: "string \<times> bytes \<times> nat option \<Rightarrow> bytes option" where
  "v6_finish r = (case r of (s, ip, ell) \<Rightarrow>
     if s \<noteq> [] then None
     else if length ip < 16 then
       (case ell of None \<Rightarrow> None
        | Some e \<Rightarrow> Some (take e ip @ replicate (16 - length ip) 0 @ drop e ip))
     else if ell \<noteq> None then None else Some ip)"

definition parse_v6 :: "string \<Rightarrow> bytes option" where
  "parse_v6 s =
     (if HasPrefix s ''::'' then
        (if length s = 2 then Some (replicate 16 0)
         else Option.bind (v6_groups 8 (drop 2 s) [] (Some 0)) v6_finish)
      else Option.bind (v6_groups 8 s [] None) v6_finish)"

text \<open>
  \<open>net.ParseIP\<close>: the first of the characters \<open>.\<close>, \<open>:\<close> and \<open>%\<close> decides the syntax; an address
  with a zone is not an IP. The result has 16 bytes.
\<close>

definition ParseIP :: "string \<Rightarrow> bytes option" where
  "ParseIP s =
     (case dropWhile (\<lambda>c. c \<noteq> CHR ''.'' \<and> c \<noteq> CHR '':'' \<and> c \<noteq> CHR ''%'') s of
        [] \<Rightarrow> None
      | c # _ \<Rightarrow>
          if c = CHR ''.'' then map_option (\<lambda>f. v4_in_v6_prefix @ f) (v4_fields s 0 0 [])
          else if c = CHR '':'' then (if CHR ''%'' \<in> set s then None else parse_v6 s)
          else None)"

text \<open>\<open>net.IP.String\<close> on an address of 4 or 16 bytes.\<close>

definition v4_string :: "bytes \<Rightarrow> string" where
  "v4_string ip = Join (map (\<lambda>b. itoa (unat b)) ip) ''.''"

fun hex_string :: "nat \<Rightarrow> string" where
  "hex_string n = (if n < 16 then [hex_digit n] else hex_string (n div 16) @ [hex_digit (n mod 16)])"

declare hex_string.simps [simp del]

fun groups_of :: "bytes \<Rightarrow> nat list" where
  "groups_of (a # b # r) = (256 * unat a + unat b) # groups_of r"
| "groups_of _ = []"

definition zero_run :: "nat list \<Rightarrow> nat \<Rightarrow> nat" where
  "zero_run gs i = length (takeWhile (\<lambda>g. g = 0) (drop i gs))"

definition longest_zero_run :: "nat list \<Rightarrow> nat \<times> nat" where
  "longest_zero_run gs =
     fold (\<lambda>i best. if 2 \<le> zero_run gs i \<and> snd best < zero_run gs i then (i, zero_run gs i) else best)
       [0..<8] (0, 0)"

definition v6_string :: "bytes \<Rightarrow> string" where
  "v6_string ip =
     (let gs = groups_of ip; (i, n) = longest_zero_run gs
      in if n = 0 then Join (map hex_string gs) '':''
         else Join (map hex_string (take i gs)) '':'' @ ''::'' @ Join (map hex_string (drop (i + n) gs)) '':'')"

definition IP_String :: "bytes \<Rightarrow> string" where
  "IP_String ip = (case To4 ip of Some p4 \<Rightarrow> v4_string p4 | None \<Rightarrow> v6_string ip)"

lemma itoa_1: "n < 10 \<Longrightarrow> itoa n = [digit_char n]"
  by (subst itoa.simps) simp

lemma itoa_2: "10 \<le> n \<Longrightarrow> n < 100 \<Longrightarrow> itoa n = [digit_char (n div 10), digit_char (n mod 10)]"
  by (subst itoa.simps) (simp add: itoa_1)

lemma itoa_3:
  "100 \<le> n \<Longrightarrow> n < 1000 \<Longrightarrow>
     itoa n = [digit_char (n div 100), digit_char (n div 10 mod 10), digit_char (n mod 10)]"
  by (subst itoa.simps) (simp add: itoa_2 div_mult2_eq [symmetric])

lemma v4_fields_octet:
  assumes "n < 256"
  shows "v4_fields (itoa n @ s) 0 0 fs = v4_fields s n (length (itoa n)) fs"
proof -
  consider "n < 10" | "10 \<le> n" "n < 100" | "100 \<le> n" "n < 1000" using assms by linarith
  then show ?thesis
  proof cases
    case 1
    then show ?thesis by (simp add: itoa_1)
  next
    case 2
    define q r where "q = n div 10" and "r = n mod 10"
    have it: "itoa n = [digit_char q, digit_char r]" 
      unfolding q_def r_def by (rule itoa_2 [OF 2])
    have n: "n = q * 10 + r" unfolding q_def r_def by presburger
    have bnd: "0 < q" "q < 10" "r < 10" using 2 unfolding q_def r_def by presburger+
    show ?thesis unfolding it using bnd by (simp add: n)
  next
    case 3
    define p q r where "p = n div 100" and "q = n div 10 mod 10" and "r = n mod 10"
    have it: "itoa n = [digit_char p, digit_char q, digit_char r]"
      unfolding p_def q_def r_def by (rule itoa_3 [OF 3])
    have pd: "p = n div 10 div 10" by (simp add: p_def flip: div_mult2_eq)
    have "p * 10 + q = n div 10" unfolding pd q_def by (rule div_mult_mod_eq)
    then have n: "n = (p * 10 + q) * 10 + r" unfolding r_def by (simp only: div_mult_mod_eq)
    have q: "q < 10" and r: "r < 10" by (simp_all add: q_def r_def)
    have "q \<le> 9" "r \<le> 9" using q r by simp_all
    with 3(1) n have "p \<noteq> 0" by (intro notI) simp
    then have "0 < p" by simp
    moreover have "p < 10"
    proof (rule ccontr)
      assume "\<not> p < 10"
      then have "1000 \<le> n" unfolding n by simp
      with 3(2) show False by simp
    qed
    ultimately have bnd: "0 < p" "p < 10" "q < 10" "r < 10" using q r by blast+
    have "(p * 10 + q) * 10 + r < 256" using assms n by simp
    then show ?thesis unfolding it using bnd by (simp add: n)
  qed
qed

lemma not_digit_dot: "\<not> is_digit (CHR ''.'')" "\<not> is_digit (CHR '':'')" "\<not> is_digit (CHR ''%'')"
  "\<not> is_digit (CHR ''['')" "\<not> is_digit (CHR '']'')"
  by (simp_all add: is_digit_def)

lemma v4_fields_string:
  "v4_fields (v4_string [a, b, c, d]) 0 0 [] = Some [a, b, c, d]"
proof -
  have u: "unat x < 256" for x :: byte using unsigned_less [of x, where 'a = nat] by simp
  have last: "v4_fields (itoa (unat d)) 0 0 [a, b, c] = Some [a, b, c, d]"
    using v4_fields_octet [OF u, of d "[]" "[a, b, c]"] by simp
  show ?thesis
    by (simp add: v4_string_def Join_def v4_fields_octet u not_digit_dot last)
qed

lemma v4_string_chars: "ch \<in> set (v4_string ip) \<Longrightarrow> is_digit ch \<or> ch = CHR ''.''"
  by (cases ip) (auto simp: v4_string_def Join_def dest: itoa_digits split: if_splits)

theorem ParseIP_v4_string:
  assumes "length ip = 4"
  shows "ParseIP (IP_String ip) = Some (v4_in_v6_prefix @ ip)"
proof -
  obtain a b c d where ip: "ip = [a, b, c, d]"
    using assms by (auto simp: numeral_eq_Suc length_Suc_conv)
  let ?P = "\<lambda>c. c \<noteq> CHR ''.'' \<and> c \<noteq> CHR '':'' \<and> c \<noteq> CHR ''%''"
  let ?r = "Join (map (\<lambda>b. itoa (unat b)) [b, c, d]) ''.''"
  have s: "v4_string ip = itoa (unat a) @ CHR ''.'' # ?r"
    by (simp add: ip v4_string_def Join_def)
  have "dropWhile ?P (v4_string ip) = CHR ''.'' # ?r"
    unfolding s
    by (rule dropWhile_append_stop) (auto dest!: itoa_digits simp: not_digit_dot)
  then show ?thesis
    using assms v4_fields_string [of a b c d]
    by (simp add: ParseIP_def IP_String_def To4_def ip)
qed

text \<open>A parsed address always has 16 bytes.\<close>

lemma length_v4_fields:
  "v4_fields s val dl fs = Some f \<Longrightarrow> length fs \<le> 3 \<Longrightarrow> length f = 4"
  by (induction s val dl fs rule: v4_fields.induct) (auto split: if_splits)

lemma v6_groups_bounds:
  assumes "v6_groups k s ip ell = Some (s', ip', ell')" "length ip + 2 * k \<le> 16"
    and "\<And>e. ell = Some e \<Longrightarrow> e \<le> length ip"
  shows "length ip' \<le> 16 \<and> (\<forall>e. ell' = Some e \<longrightarrow> e \<le> length ip')"
  using assms
proof (induction k arbitrary: s ip ell)
  case 0
  then show ?case by simp
next
  case (Suc k)
  let ?acc = "hex_number (takeWhile is_hex s)"
  let ?ip = "ip @ [word_of_nat (?acc div 256), word_of_nat (?acc mod 256)]"
  have len: "length ?ip + 2 * k \<le> 16" "length ?ip = length ip + 2" using Suc.prems(2) by simp_all
  from Suc.prems(1) consider
    f where "v4_fields s 0 0 [] = Some f" "ip' = ip @ f" "ell' = ell" "length ip + 4 \<le> 16"
    | "ip' = ?ip" "ell' = ell" | "ip' = ?ip" "ell' = Some (length ?ip)"
    | r where "v6_groups k r ?ip (Some (length ?ip)) = Some (s', ip', ell')"
    | r where "v6_groups k r ?ip ell = Some (s', ip', ell')"
    by (auto simp: Let_def split: if_splits option.splits)
  then show ?case
  proof cases
    case (1 f)
    then have "length f = 4" using length_v4_fields by fastforce
    with 1 Suc.prems(3) show ?thesis by fastforce
  next
    case 2
    with len Suc.prems(3) show ?thesis by fastforce
  next
    case 3
    with len show ?thesis by simp
  next
    case (4 r)
    from Suc.IH [OF 4 len(1)] show ?thesis by simp
  next
    case (5 r)
    have "e \<le> length ?ip" if "ell = Some e" for e using Suc.prems(3) [OF that] by simp
    from Suc.IH [OF 5 len(1) this] show ?thesis .
  qed
qed

lemma length_v6_finish:
  assumes "v6_finish (s, ip, ell) = Some r" "length ip \<le> 16" "\<And>e. ell = Some e \<Longrightarrow> e \<le> length ip"
  shows "length r = 16"
  using assms by (auto simp: v6_finish_def split: if_splits option.splits)

lemma length_parse_v6: "parse_v6 s = Some ip \<Longrightarrow> length ip = 16"
proof -
  assume p: "parse_v6 s = Some ip"
  have *: "length ip = 16" if "Option.bind (v6_groups 8 t [] ell) v6_finish = Some ip" "ell \<in> {None, Some 0}" for t ell
  proof -
    from that(1) obtain s' ip' ell' where g: "v6_groups 8 t [] ell = Some (s', ip', ell')"
      and f: "v6_finish (s', ip', ell') = Some ip"
      by (auto simp: bind_eq_Some_conv)
    from v6_groups_bounds [OF g] that(2) have "length ip' \<le> 16" "\<And>e. ell' = Some e \<Longrightarrow> e \<le> length ip'" by auto
    from length_v6_finish [OF f this] show ?thesis by simp
  qed
  from p show ?thesis by (auto simp: parse_v6_def split: if_splits dest: *)
qed

lemma length_ParseIP: "ParseIP s = Some ip \<Longrightarrow> length ip = 16"
  by (auto simp: ParseIP_def v4_in_v6_prefix_def split: list.splits if_splits
      dest: length_v4_fields length_parse_v6)

end
