(* ===== verification/Profile.thy ===== *)
theory Profile
  imports Http_Header Stable_Sort Go_Net
begin

text \<open>
  Package \<open>internal/profile\<close>: the identity profile as data, its validation, the rewriting and
  the ordering of request headers, and the registry of profiles by name and alias. A Go map
  that a \<open>range\<close> visits (\<open>Headers.Set\<close>, the header itself, a directory's profiles) is an
  association list whose order is one visiting order; the theorems say what does not depend on it.
\<close>

section \<open>The profile\<close>

record HeaderProfile =
  Order :: "string list"
  SetHeaders :: "(string \<times> string) list"

record HTTP2Setting =
  SettingName :: string
  SettingValue :: "32 word"

record HTTP2Profile =
  Settings :: "HTTP2Setting list"
  ConnectionWindowUpdate :: "32 word"
  PseudoHeaderOrder :: "string list"

record Profile =
  Name :: string
  Aliases :: "string list"
  Description :: string
  ClientHello :: string
  UserAgent :: string
  ALPN :: "string list"
  Headers :: HeaderProfile
  HTTP2 :: "HTTP2Profile option"

section \<open>Validation\<close>

fun validate_aliases :: "Profile \<Rightarrow> string list \<Rightarrow> string list \<Rightarrow> go_error option" where
  "validate_aliases p seen [] = None"
| "validate_aliases p seen (alias # rest) =
     (let alias = TrimSpace alias
      in if alias = [] then
           Some (Errorf (''profile '' @ quote (Name p) @ '': aliases must not be empty''))
         else if List.member seen alias then
           Some (Errorf (''profile '' @ quote (Name p) @ '': duplicate alias '' @ quote alias))
         else validate_aliases p (alias # seen) rest)"

definition Validate :: "Profile \<Rightarrow> go_error option" where
  "Validate p =
     (if TrimSpace (Name p) = [] then Some (Errorf ''profile: name is required'')
      else case validate_aliases p [TrimSpace (Name p)] (Aliases p) of
        Some e \<Rightarrow> Some e
      | None \<Rightarrow>
          if TrimSpace (ClientHello p) = [] then
            Some (Errorf (''profile '' @ quote (Name p) @ '': client_hello is required''))
          else if TrimSpace (UserAgent p) = [] then
            Some (Errorf (''profile '' @ quote (Name p) @ '': user_agent is required''))
          else if ALPN p = [] then
            Some (Errorf (''profile '' @ quote (Name p) @ '': at least one ALPN protocol is required''))
          else None)"

text \<open>The names a profile answers to, as the registry stores them.\<close>

definition profile_names :: "Profile \<Rightarrow> string list" where
  "profile_names p = map TrimSpace (Name p # Aliases p)"

lemma validate_aliases_None:
  "validate_aliases p seen as = None \<longleftrightarrow>
     [] \<notin> set (map TrimSpace as) \<and> distinct (map TrimSpace as)
     \<and> set (map TrimSpace as) \<inter> set seen = {}"
  by (induction as arbitrary: seen) (auto simp: Let_def)

text \<open>C38: a profile is accepted exactly when its trimmed name and aliases are non-empty and pairwise
  distinct and it names a ClientHello, a User-Agent and at least one ALPN protocol.\<close>

theorem Validate_accepts_iff:
  "Validate p = None \<longleftrightarrow>
     distinct (profile_names p) \<and> [] \<notin> set (profile_names p)
     \<and> TrimSpace (ClientHello p) \<noteq> [] \<and> TrimSpace (UserAgent p) \<noteq> [] \<and> ALPN p \<noteq> []"
proof (cases "validate_aliases p [TrimSpace (Name p)] (Aliases p)")
  case None
  then show ?thesis
    using validate_aliases_None [of p "[TrimSpace (Name p)]" "Aliases p"]
    by (auto simp: Validate_def profile_names_def)
next
  case (Some e)
  then show ?thesis
    using validate_aliases_None [of p "[TrimSpace (Name p)]" "Aliases p"]
    by (auto simp: Validate_def profile_names_def)
qed

section \<open>Rewriting request headers\<close>

definition Apply :: "Profile \<Rightarrow> header \<Rightarrow> header" where
  "Apply p h =
     (let h1 = (if UserAgent p \<noteq> [] then header_Set h ''User-Agent'' (UserAgent p) else h)
      in fold (\<lambda>(name, value) h. header_Set h name value) (SetHeaders (Headers p)) h1)"

lemma Apply_wf: "header_wf h \<Longrightarrow> header_wf (Apply p h)"
  by (simp add: Apply_def Let_def hdr.wf_put_all header_wf_Set)

text \<open>
  The values a rewritten header must have: the profile's value where the profile sets the
  header, the profile's User-Agent, and the client's own value everywhere else.
\<close>

definition applied_value :: "Profile \<Rightarrow> header \<Rightarrow> string \<Rightarrow> string list option" where
  "applied_value p h k =
     (case map_of (map (\<lambda>(n, v). (CanonicalHeaderKey n, v)) (SetHeaders (Headers p))) k of
        Some v \<Rightarrow> Some [v]
      | None \<Rightarrow> if k = ''User-Agent'' \<and> UserAgent p \<noteq> [] then Some [UserAgent p]
                else header_index h k)"

lemma canonical_user_agent [simp]: "CanonicalHeaderKey ''User-Agent'' = ''User-Agent''"
  by code_simp

lemma apply_lookup:
  assumes "header_wf h"
    and "distinct (map (CanonicalHeaderKey \<circ> fst) (SetHeaders (Headers p)))"
  shows "header_index (Apply p h) k = applied_value p h k"
proof (cases "k \<in> CanonicalHeaderKey ` fst ` set (SetHeaders (Headers p))")
  case True
  then obtain n v where nv: "(n, v) \<in> set (SetHeaders (Headers p))" "k = CanonicalHeaderKey n"
    by auto
  have "map_of (map (\<lambda>(n, v). (CanonicalHeaderKey n, v)) (SetHeaders (Headers p))) k = Some v"
    using assms(2) nv by (intro map_of_is_SomeI) (force simp: o_def case_prod_beta)+
  with assms nv show ?thesis
    by (simp add: applied_value_def Apply_def Let_def hdr.lookup_put_all header_wf_Set)
next
  case False
  then have "map_of (map (\<lambda>(n, v). (CanonicalHeaderKey n, v)) (SetHeaders (Headers p))) k = None"
    by (force simp: map_of_eq_None_iff)
  with assms False show ?thesis
    by (simp add: applied_value_def Apply_def Let_def hdr.lookup_put_all_other header_wf_Set
        hdr.lookup_put)
qed

text \<open>Rewriting a request gives every header the profile sets exactly the profile's value and the
  User-Agent the profile's string, and leaves every other header as the client sent it.\<close>

theorem Apply_rewrites_identity:
  assumes "header_wf h"
    and "distinct (map (CanonicalHeaderKey \<circ> fst) (SetHeaders (Headers p)))"
  shows "header_index (Apply p h) k = applied_value p h k"
  using assms by (rule apply_lookup)

lemma Apply_order_independent:
  assumes "header_wf h" "mset (SetHeaders (Headers p)) = mset (SetHeaders (Headers q))"
    and "UserAgent p = UserAgent q"
    and "distinct (map (CanonicalHeaderKey \<circ> fst) (SetHeaders (Headers p)))"
  shows "header_index (Apply p h) k = header_index (Apply q h) k"
  using assms
  by (auto simp: Apply_def Let_def header_wf_Set intro!: hdr.put_all_order_independent)

theorem Apply_rewrites_identity_witness:
  "header_index (Apply \<lparr>Name = ''p'', Aliases = [], Description = [], ClientHello = ''chrome'', UserAgent = ''u'', ALPN = [''h2''],
      Headers = \<lparr>Order = [], SetHeaders = [(''accept'', ''a'')]\<rparr>, HTTP2 = None\<rparr>
      [(''User-Agent'', [''curl'']), (''Cookie'', [''c''])]) ''User-Agent'' = Some [''u'']"
proof -
  let ?p = "\<lparr>Name = ''p'', Aliases = [], Description = [], ClientHello = ''chrome'', UserAgent = ''u'', ALPN = [''h2''],
      Headers = \<lparr>Order = [], SetHeaders = [(''accept'', ''a'')]\<rparr>, HTTP2 = None\<rparr>"
  let ?h = "[(''User-Agent'', [''curl'']), (''Cookie'', [''c''])]"
  have "CanonicalHeaderKey ''accept'' = ''Accept''" by code_simp
  then have "applied_value ?p ?h ''User-Agent'' = Some [''u'']" by (simp add: applied_value_def)
  moreover have "header_wf ?h" by (simp add: header_wf_def)
  ultimately show ?thesis using Apply_rewrites_identity [of ?h ?p "''User-Agent''"] by simp
qed

section \<open>Ordering request headers\<close>

text \<open>\<open>rank[strings.ToLower(name)] = i\<close> for every position of the order; the last one stays.\<close>

definition header_rank :: "Profile \<Rightarrow> string \<Rightarrow> nat option" where
  "header_rank p k =
     map_of (rev (zip (map ToLower (Order (Headers p))) [0..<length (Order (Headers p))])) (ToLower k)"

definition header_before :: "Profile \<Rightarrow> string \<Rightarrow> string \<Rightarrow> bool" where
  "header_before p a b =
     (case (header_rank p a, header_rank p b) of
        (Some ra, Some rb) \<Rightarrow> ra < rb
      | (Some _, None) \<Rightarrow> True
      | (None, Some _) \<Rightarrow> False
      | (None, None) \<Rightarrow> a < b)"

definition OrderHeaders :: "Profile \<Rightarrow> header \<Rightarrow> string list" where
  "OrderHeaders p h = SliceStable (header_before p) (map fst h)"

interpretation header_order: strict_weak_order "header_before p" for p
  by unfold_locales (auto simp: header_before_def split: option.splits)

lemma mset_OrderHeaders: "mset (OrderHeaders p h) = mset (map fst h)"
  by (simp add: OrderHeaders_def)

lemma set_OrderHeaders: "set (OrderHeaders p h) = fst ` set h"
  by (simp add: OrderHeaders_def)

lemma distinct_OrderHeaders: "header_wf h \<Longrightarrow> distinct (OrderHeaders p h)"
  unfolding header_wf_def by (metis mset_OrderHeaders mset_eq_imp_distinct_iff)

lemma header_rank_eq_imp_fold:
  assumes "header_rank p a = Some i" "header_rank p b = Some i"
  shows "EqualFold a b"
proof -
  let ?os = "map ToLower (Order (Headers p))"
  have "(ToLower k, i) \<in> set (zip ?os [0..<length ?os])" if "header_rank p k = Some i" for k
    using map_of_SomeD [OF that [unfolded header_rank_def]] by simp
  then have "?os ! i = ToLower k" if "header_rank p k = Some i" for k
    using that by (fastforce simp: set_zip)
  with assms show ?thesis by (metis EqualFold_def)
qed

lemma header_before_total:
  assumes "\<not> EqualFold a b"
  shows "header_before p a b \<or> header_before p b a"
proof -
  from assms have "a \<noteq> b" by auto
  with assms header_rank_eq_imp_fold [of p a _ b] show ?thesis
    by (auto simp: header_before_def split: option.splits) (metis linorder_neqE_nat)
qed

text \<open>Keys ranked by the profile come first, by rank; the others follow in byte order.\<close>

lemma header_order_splits:
  assumes "sorted_wrt (\<lambda>a b. \<not> header_before p b a) ks"
  shows "\<exists>ranked rest. ks = ranked @ rest
     \<and> list_all (\<lambda>k. header_rank p k \<noteq> None) ranked \<and> list_all (\<lambda>k. header_rank p k = None) rest
     \<and> sorted (map (the \<circ> header_rank p) ranked) \<and> sorted rest"
  using assms
proof (induction ks)
  case (Cons k ks)
  then have "sorted_wrt (\<lambda>a b. \<not> header_before p b a) ks" by simp
  from Cons.IH [OF this] obtain ranked rest where ih: "ks = ranked @ rest"
    "list_all (\<lambda>k. header_rank p k \<noteq> None) ranked" "list_all (\<lambda>k. header_rank p k = None) rest"
    "sorted (map (the \<circ> header_rank p) ranked)" "sorted rest" by blast
  have k: "\<forall>x\<in>set ks. \<not> header_before p x k" using Cons.prems by simp
  show ?case
  proof (cases "header_rank p k")
    case None
    have "ranked = []"
    proof (rule ccontr)
      assume "ranked \<noteq> []"
      then obtain x where x: "x \<in> set ranked" by (meson list.set_sel(1))
      with ih(2) obtain r where "header_rank p x = Some r" by (auto simp: list_all_iff)
      with None have "header_before p x k" by (simp add: header_before_def)
      with k ih(1) x show False by simp
    qed
    with ih k None have "sorted (k # rest)"
      by (auto simp: list_all_iff header_before_def not_less)
    with ih None \<open>ranked = []\<close> show ?thesis
      by (rule_tac x = "[]" in exI, rule_tac x = "k # rest" in exI) simp
  next
    case (Some r)
    have "r \<le> the (header_rank p x)" if "x \<in> set ranked" for x
    proof -
      from ih(2) that obtain s where "header_rank p x = Some s" by (auto simp: list_all_iff)
      moreover have "\<not> header_before p x k" using k ih(1) that by simp
      ultimately show ?thesis using Some by (simp add: header_before_def not_less)
    qed
    with ih(4) Some have "sorted (map (the \<circ> header_rank p) (k # ranked))" by auto
    with ih Some show ?thesis
      by (rule_tac x = "k # ranked" in exI, rule_tac x = rest in exI) (simp add: comp_def)
  qed
qed simp

lemma last_position:
  "map_of (rev (zip xs [0..<length xs])) x = Some n \<Longrightarrow> n < length xs \<and> xs ! n = x \<and> x \<notin> set (drop (Suc n) xs)"
proof (induction xs rule: rev_induct)
  case (snoc y xs)
  then show ?case by (cases "x = y") (auto simp: nth_append)
qed simp

lemma no_position: "map_of (rev (zip xs [0..<length xs])) x = None \<longleftrightarrow> x \<notin> set xs"
  by (simp add: map_of_eq_None_iff flip: set_map)

text \<open>The rank of a key is the last position of its name in the profile's list, whatever its case.\<close>

definition last_named :: "string list \<Rightarrow> string \<Rightarrow> nat \<Rightarrow> bool" where
  "last_named names k n \<longleftrightarrow>
     n < length names \<and> EqualFold (names ! n) k \<and> list_all (\<lambda>name. \<not> EqualFold name k) (drop (Suc n) names)"

lemma header_rank_position:
  "header_rank p k = Some n \<Longrightarrow> last_named (Order (Headers p)) k n"
  using last_position [of "map ToLower (Order (Headers p))" "ToLower k" n]
  by (auto simp: header_rank_def last_named_def EqualFold_def list_all_iff drop_map) (metis image_eqI)

lemma header_rank_none:
  "header_rank p k = None \<Longrightarrow> list_all (\<lambda>name. \<not> EqualFold name k) (Order (Headers p))"
  using no_position [of "map ToLower (Order (Headers p))" "ToLower k"]
  by (auto simp: header_rank_def EqualFold_def list_all_iff) (metis image_eqI)

text \<open>C36: the ordered keys are a permutation of the header's keys. First come the keys the profile names,
  compared without regard to case, by the last position of their name in the profile's list; then the keys
  that it names in no spelling, in byte order.\<close>

theorem OrderHeaders_shape:
  "\<exists>ranked positions rest. OrderHeaders p h = ranked @ rest \<and> mset (ranked @ rest) = mset (map fst h)
     \<and> list_all2 (\<lambda>k n. n < length (Order (Headers p)) \<and> EqualFold (Order (Headers p) ! n) k
            \<and> list_all (\<lambda>name. \<not> EqualFold name k) (drop (Suc n) (Order (Headers p)))) ranked positions
     \<and> sorted positions
     \<and> list_all (\<lambda>k. list_all (\<lambda>name. \<not> EqualFold name k) (Order (Headers p))) rest \<and> sorted rest"
proof -
  obtain ranked rest where s: "OrderHeaders p h = ranked @ rest" "list_all (\<lambda>k. header_rank p k \<noteq> None) ranked"
    "list_all (\<lambda>k. header_rank p k = None) rest" "sorted (map (the \<circ> header_rank p) ranked)" "sorted rest"
    using header_order_splits [OF header_order.sorted_SliceStable, of p "map fst h"] by (auto simp: OrderHeaders_def)
  have "list_all2 (last_named (Order (Headers p))) ranked (map (the \<circ> header_rank p) ranked)"
    using s(2) header_rank_position by (fastforce simp: list_all2_conv_all_nth list_all_length)
  moreover have "list_all (\<lambda>k. list_all (\<lambda>name. \<not> EqualFold name k) (Order (Headers p))) rest"
    using s(3) header_rank_none by (auto simp: list_all_iff)
  ultimately show ?thesis
    using s mset_OrderHeaders [of p h] unfolding last_named_def [abs_def]
    by (intro exI [of _ ranked] exI [of _ "map (the \<circ> header_rank p) ranked"] exI [of _ rest]) simp
qed

text \<open>When no two keys are equal up to case, the result does not depend on the order in which
  Go's \<open>range\<close> visits the header map.\<close>

theorem OrderHeaders_deterministic:
  assumes "mset h = mset h'"
    and "distinct (map (ToLower \<circ> fst) h)"
  shows "OrderHeaders p h = OrderHeaders p h'"
  unfolding OrderHeaders_def
proof (rule header_order.SliceStable_unique)
  show "mset (map fst h) = mset (map fst h')"
    using assms(1) by (simp only: mset_map)
  fix a b
  assume ab: "a \<in> set (map fst h)" "b \<in> set (map fst h)" "a \<noteq> b"
  have "inj_on ToLower (set (map fst h))"
    using assms(2) by (auto simp: distinct_map inj_on_def)
  with ab have "\<not> EqualFold a b" by (auto simp: EqualFold_def inj_on_def)
  then show "header_before p a b \<or> header_before p b a" by (rule header_before_total)
qed

theorem OrderHeaders_deterministic_witness:
  "OrderHeaders \<lparr>Name = ''p'', Aliases = [], Description = [], ClientHello = ''chrome'', UserAgent = ''u'', ALPN = [''h2''],
      Headers = \<lparr>Order = [''host''], SetHeaders = []\<rparr>, HTTP2 = None\<rparr> [(''Accept'', [''a'']), (''Host'', [''h''])]
   = OrderHeaders \<lparr>Name = ''p'', Aliases = [], Description = [], ClientHello = ''chrome'', UserAgent = ''u'', ALPN = [''h2''],
      Headers = \<lparr>Order = [''host''], SetHeaders = []\<rparr>, HTTP2 = None\<rparr> [(''Host'', [''h'']), (''Accept'', [''a''])]"
proof (rule OrderHeaders_deterministic)
  have "ToLower ''Accept'' \<noteq> ToLower ''Host''" by code_simp
  then show "distinct (map (ToLower \<circ> fst) [(''Accept'', [''a'']), (''Host'', [''h''])])" by simp
qed simp

end
