(* ===== verification/Http_Message.thy ===== *)
theory Http_Message
  imports Connection Profile
begin

text \<open>
  What the packages read and write of \<open>http.Request\<close> and \<open>http.Response\<close>, the functions of
  the standard library they apply to them (\<open>http.StatusText\<close>, \<open>strconv.Atoi\<close>, \<open>ParseInt\<close>), the
  HTTP/1.1 request writer of \<open>internal/upstream/roundtripper.go\<close> and the two status writers
  (\<open>writeStatus\<close>, \<open>writeHTTPStatus\<close>).
\<close>

section \<open>Messages\<close>

text \<open>
  A request body: \<open>http.NoBody\<close>, or a reader with the bytes it delivers and the error that ends
  it (\<open>None\<close>: end of file). \<open>req.Body == nil\<close> is \<open>None\<close> in the request's field.
\<close>

datatype req_body = NoBody | BodyOf bytes "go_error option"

record Request =
  Method :: string
  URL_Scheme :: string
  URL_Host :: string
  URL_RequestURI :: string
  Host :: string
  ReqHeader :: header
  Body :: "req_body option"
  ReqContentLength :: int

record Response =
  StatusCode :: int
  Status :: string
  Proto :: string
  RespHeader :: header
  RespContentLength :: int
  Uncompressed :: bool
  RespTransferEncoding :: "string list"
  RespClose :: bool

definition io_ReadAll :: "req_body \<Rightarrow> go_error + bytes" where
  "io_ReadAll b = (case b of NoBody \<Rightarrow> Inr [] | BodyOf bs None \<Rightarrow> Inr bs | BodyOf bs (Some e) \<Rightarrow> Inl e)"

definition readRequestBody :: "Request \<Rightarrow> go_error + bytes" where
  "readRequestBody req =
     (case Body req of
        None \<Rightarrow> Inr []
      | Some b \<Rightarrow> (case io_ReadAll b of Inl e \<Rightarrow> Inl (Wrapf ''read request body'' e) | Inr bs \<Rightarrow> Inr bs))"

definition requestAuthority :: "Request \<Rightarrow> string" where
  "requestAuthority req = (if Host req \<noteq> [] then Host req else URL_Host req)"

section \<open>Standard library\<close>

text \<open>\<open>http.StatusText\<close>: the registered reason phrases, empty for any other code.\<close>

definition status_texts :: "(int \<times> string) list" where
  "status_texts =
    [(100, ''Continue''), (101, ''Switching Protocols''), (102, ''Processing''), (103, ''Early Hints''),
     (200, ''OK''), (201, ''Created''), (202, ''Accepted''), (203, ''Non-Authoritative Information''),
     (204, ''No Content''), (205, ''Reset Content''), (206, ''Partial Content''), (207, ''Multi-Status''),
     (208, ''Already Reported''), (226, ''IM Used''), (300, ''Multiple Choices''),
     (301, ''Moved Permanently''), (302, ''Found''), (303, ''See Other''), (304, ''Not Modified''),
     (305, ''Use Proxy''), (307, ''Temporary Redirect''), (308, ''Permanent Redirect''),
     (400, ''Bad Request''), (401, ''Unauthorized''), (402, ''Payment Required''), (403, ''Forbidden''),
     (404, ''Not Found''), (405, ''Method Not Allowed''), (406, ''Not Acceptable''),
     (407, ''Proxy Authentication Required''), (408, ''Request Timeout''), (409, ''Conflict''),
     (410, ''Gone''), (411, ''Length Required''), (412, ''Precondition Failed''),
     (413, ''Request Entity Too Large''), (414, ''Request URI Too Long''),
     (415, ''Unsupported Media Type''), (416, ''Requested Range Not Satisfiable''),
     (417, ''Expectation Failed''), (418, ''I'' @ [CHR 0x27] @ ''m a teapot''), (421, ''Misdirected Request''),
     (422, ''Unprocessable Entity''), (423, ''Locked''), (424, ''Failed Dependency''), (425, ''Too Early''),
     (426, ''Upgrade Required''), (428, ''Precondition Required''), (429, ''Too Many Requests''),
     (431, ''Request Header Fields Too Large''), (451, ''Unavailable For Legal Reasons''),
     (500, ''Internal Server Error''), (501, ''Not Implemented''), (502, ''Bad Gateway''),
     (503, ''Service Unavailable''), (504, ''Gateway Timeout''), (505, ''HTTP Version Not Supported''),
     (506, ''Variant Also Negotiates''), (507, ''Insufficient Storage''), (508, ''Loop Detected''),
     (510, ''Not Extended''), (511, ''Network Authentication Required'')]"

definition StatusText :: "int \<Rightarrow> string" where
  "StatusText code = (case map_of status_texts code of Some t \<Rightarrow> t | None \<Rightarrow> [])"

text \<open>\<open>%d\<close> of an integer.\<close>

definition itoa_int :: "int \<Rightarrow> string" where
  "itoa_int n = (if n < 0 then CHR ''-'' # itoa (nat (- n)) else itoa (nat n))"

text \<open>
  The value \<open>strconv.Atoi(s)\<close> and \<open>strconv.ParseInt(s, 10, 64)\<close> return whatever their error: 0 on a
  syntax error, the nearest 64-bit value when the number is out of range.
\<close>

definition atoi_value :: "string \<Rightarrow> int" where
  "atoi_value s =
     (case s of
        [] \<Rightarrow> 0
      | c # r \<Rightarrow>
          (let neg = (c = CHR ''-''); ds = (if c = CHR ''-'' \<or> c = CHR ''+'' then r else s)
           in if ds = [] \<or> \<not> list_all is_digit ds then 0
              else let n = int (decimal 0 ds)
                in if neg then - min n (2 ^ 63) else min n (2 ^ 63 - 1)))"

lemma atoi_value_itoa: "n < 2 ^ 63 \<Longrightarrow> atoi_value (itoa n) = int n"
proof -
  assume n: "n < 2 ^ 63"
  obtain c r where s: "itoa n = c # r" by (cases "itoa n") auto
  have dig: "list_all is_digit (itoa n)" by (auto simp: list_all_iff dest: itoa_digits)
  then have "is_digit c" by (simp add: s)
  then have "c \<noteq> CHR ''-''" "c \<noteq> CHR ''+''" by (auto simp: is_digit_def)
  moreover have "int n \<le> 2 ^ 63 - 1"
    using n by (metis int_ops(3) of_nat_less_iff of_nat_numeral of_nat_power zle_diff1_eq)
  ultimately show ?thesis
    using dig decimal_itoa [of n] s by (simp add: atoi_value_def Let_def min_def)
qed

section \<open>Status lines\<close>

definition crlf :: string where
  "crlf = [CHR 0x0D, CHR 0x0A]"

definition status_response :: "int \<Rightarrow> string" where
  "status_response status =
     ''HTTP/1.1 '' @ itoa_int status @ '' '' @ StatusText status @ crlf
       @ ''Content-Length: 0'' @ crlf @ ''Connection: close'' @ crlf @ crlf"

text \<open>\<open>writeStatus\<close> (\<open>mitm.go\<close>) and \<open>writeHTTPStatus\<close> (\<open>http.go\<close>): what they write.\<close>

definition writeStatus :: "int \<Rightarrow> bytes" where
  "writeStatus status = bytes_of (status_response status)"

definition writeHTTPStatus :: "int \<Rightarrow> bytes" where
  "writeHTTPStatus status = bytes_of (status_response status)"

section \<open>Writing a request over HTTP/1.1\<close>

definition http1_headers :: "Request \<Rightarrow> bytes \<Rightarrow> bool \<Rightarrow> header" where
  "http1_headers req body hasBody =
     (let host = requestAuthority req;
          headers = header_Set (ReqHeader req) ''Host'' host
      in if hasBody \<or> Method req = ''POST'' \<or> Method req = ''PUT''
         then header_Set headers ''Content-Length'' (itoa (length body)) else headers)"

definition header_line :: "string \<Rightarrow> string \<Rightarrow> string" where
  "header_line name value = name @ '': '' @ value @ crlf"

definition http1_head :: "Request \<Rightarrow> Profile \<Rightarrow> header \<Rightarrow> string" where
  "http1_head req p headers =
     Method req @ '' '' @ URL_RequestURI req @ '' HTTP/1.1'' @ crlf
     @ concat (map (\<lambda>name. concat (map (header_line name)
         (case header_index headers name of Some vs \<Rightarrow> vs | None \<Rightarrow> []))) (OrderHeaders p headers))
     @ crlf"

definition WriteRequestHTTP1 :: "Request \<Rightarrow> Profile \<Rightarrow> unit io" where
  "WriteRequestHTTP1 req p =
     (let hasBody = (Body req \<noteq> None \<and> Body req \<noteq> Some NoBody)
      in io_bind (io_wrap ''read request body''
             (io_lift (if hasBody then io_ReadAll (the (Body req)) else Inr []))) (\<lambda>body.
         let headers = http1_headers req body hasBody
         in io_bind (io_wrap ''write request head'' (io_write (bytes_of (http1_head req p headers)))) (\<lambda>_.
            if 0 < length body then io_wrap ''write request body'' (io_write body)
            else io_return ())))"

section \<open>What the server reads back\<close>

text \<open>The lines of a message head, split at CR LF.\<close>

fun crlf_lines :: "string \<Rightarrow> string list" where
  "crlf_lines [] = [[]]"
| "crlf_lines [c] = [[c]]"
| "crlf_lines (c # d # s) =
     (if c = CHR 0x0D \<and> d = CHR 0x0A then [] # crlf_lines s
      else (case crlf_lines (d # s) of [] \<Rightarrow> [[c]] | l # ls \<Rightarrow> (c # l) # ls))"

lemma crlf_lines_line:
  "CHR 0x0D \<notin> set l \<Longrightarrow> crlf_lines (l @ crlf @ s) = l # crlf_lines s"
proof (induction l)
  case Nil
  then show ?case by (simp add: crlf_def)
next
  case (Cons c l)
  then have ih: "crlf_lines (l @ crlf @ s) = l # crlf_lines s" and c: "c \<noteq> CHR 0x0D" by auto
  obtain d r where "l @ crlf @ s = d # r" by (cases "l @ crlf @ s") (auto simp: crlf_def)
  with ih c show ?case by simp
qed

definition request_line :: "Request \<Rightarrow> string" where
  "request_line req = Method req @ '' '' @ URL_RequestURI req @ '' HTTP/1.1''"

text \<open>The header fields in the order in which they are sent.\<close>

definition ordered_fields :: "Profile \<Rightarrow> header \<Rightarrow> (string \<times> string) list" where
  "ordered_fields p h = concat (map (\<lambda>n. map (Pair n) (case header_index h n of Some vs \<Rightarrow> vs | None \<Rightarrow> [])) (OrderHeaders p h))"

definition line_safe :: "string \<Rightarrow> bool" where
  "line_safe s \<longleftrightarrow> CHR 0x0D \<notin> set s"

lemma crlf_lines_fields:
  "list_all (\<lambda>(n, v). line_safe n \<and> line_safe v) fs \<Longrightarrow>
   crlf_lines (concat (map (\<lambda>(n, v). header_line n v) fs) @ s) = map (\<lambda>(n, v). n @ '': '' @ v) fs @ crlf_lines s"
proof (induction fs)
  case (Cons f fs)
  obtain n v where f: "f = (n, v)" by force
  have "crlf_lines ((n @ '': '' @ v) @ crlf @ concat (map (\<lambda>(n, v). header_line n v) fs) @ s)
      = (n @ '': '' @ v) # crlf_lines (concat (map (\<lambda>(n, v). header_line n v) fs) @ s)"
    by (rule crlf_lines_line) (use Cons.prems f in \<open>auto simp: line_safe_def\<close>)
  with Cons f show ?case by (simp add: header_line_def)
qed simp

lemma http1_head_fields:
  "http1_head req p h = request_line req @ crlf @ concat (map (\<lambda>(n, v). header_line n v) (ordered_fields p h)) @ crlf"
proof -
  have "concat (map (\<lambda>n. concat (map (header_line n) (g n))) ks)
      = concat (map (\<lambda>(n, v). header_line n v) (concat (map (\<lambda>n. map (Pair n) (g n)) ks)))" for g ks
    by (induction ks) (simp_all add: comp_def)
  then show ?thesis by (simp add: http1_head_def request_line_def ordered_fields_def)
qed

lemma http1_head_lines:
  assumes "line_safe (Method req)" "line_safe (URL_RequestURI req)"
    and "list_all (\<lambda>(n, v). line_safe n \<and> line_safe v) (ordered_fields p h)"
  shows "crlf_lines (http1_head req p h) =
     request_line req # map (\<lambda>(n, v). n @ '': '' @ v) (ordered_fields p h) @ [[], []]"
proof -
  have "CHR 0x0D \<notin> set (request_line req)" using assms(1,2) by (auto simp: request_line_def line_safe_def)
  moreover have "crlf_lines crlf = [[], []]" by (simp add: crlf_def)
  ultimately show ?thesis
    using crlf_lines_fields [OF assms(3), of crlf] by (simp add: http1_head_fields crlf_lines_line)
qed

lemma canonical_message_names [simp]:
  "CanonicalHeaderKey ''Host'' = ''Host''" "CanonicalHeaderKey ''Content-Length'' = ''Content-Length''"
  "CanonicalHeaderKey ''Content-Encoding'' = ''Content-Encoding''"
  by code_simp+

lemma http1_headers_wf: "header_wf (ReqHeader req) \<Longrightarrow> header_wf (http1_headers req body b)"
  by (simp add: http1_headers_def Let_def header_wf_Set)

text \<open>The fields that are sent are the header's, each value once, whatever order the profile gives.\<close>

lemma index_of_member: "header_wf h \<Longrightarrow> (k, vs) \<in> set h \<Longrightarrow> header_index h k = Some vs"
  by (simp add: header_wf_def header_index_def)

lemma mset_ordered_fields:
  assumes "header_wf h"
  shows "mset (ordered_fields p h) = mset (concat (map (\<lambda>(k, vs). map (Pair k) vs) h))"
proof -
  let ?vs = "\<lambda>n. map (Pair n) (case header_index h n of Some vs \<Rightarrow> vs | None \<Rightarrow> [])"
  have m: "mset xs = mset ys \<Longrightarrow> mset (concat (map f xs)) = mset (concat (map f ys))"
    for f :: "string \<Rightarrow> (string \<times> string) list" and xs ys
    by (simp add: mset_concat flip: sum_mset_sum_list)
  have "map ?vs (map fst h) = map (\<lambda>(k, vs). map (Pair k) vs) h"
    using index_of_member [OF assms] by (auto split: prod.split)
  with m [OF mset_OrderHeaders [of p h], of ?vs] show ?thesis unfolding ordered_fields_def by metis
qed

lemma fields_named:
  "header_wf h \<Longrightarrow> filter (\<lambda>(n, _). n = k) (concat (map (\<lambda>(k, vs). map (Pair k) vs) h))
     = map (Pair k) (case header_index h k of Some vs \<Rightarrow> vs | None \<Rightarrow> [])"
proof (induction h)
  case (Cons x h)
  obtain n vs where x: "x = (n, vs)" by force
  have f: "filter (\<lambda>(n, _). n = k) (map (Pair n) vs) = (if n = k then map (Pair n) vs else [])" for vs :: "string list"
    by (induction vs) auto
  from Cons.prems x have "n = k \<Longrightarrow> header_index h k = None" by (auto simp: header_wf_def header_index_def map_of_eq_None_iff)
  with Cons x f show ?case by (auto simp: header_wf_def header_index_def)
qed (simp add: header_index_def)

text \<open>C34: a request written over HTTP/1.1 reads back as itself, provided that no part of its head holds a CR, the
  connection takes every write, the body can be read and is shorter than 2^63 bytes: the bytes are the
  request line, the header fields in the profile's order, then the body. The fields are the request's own,
  every value of every key once, except that the key Host occurs once, with the request's authority, and
  that Content-Length states the body's length whenever there is one.\<close>

theorem WriteRequestHTTP1_wire:
  assumes "writes_left c = None" "header_wf (ReqHeader req)"
    and "Body req = None \<and> body = [] \<or> Body req = Some NoBody \<and> body = [] \<or> Body req = Some (BodyOf body None)"
    and "line_safe (Method req)" "line_safe (URL_RequestURI req)" "line_safe (requestAuthority req)"
    and "list_all (\<lambda>(n, vs). line_safe n \<and> list_all line_safe vs) (ReqHeader req)"
    and "length body < 2 ^ 63"
  shows "\<exists>h head. WriteRequestHTTP1 req p c = (Inr (), c\<lparr>tx := tx c @ bytes_of head @ body\<rparr>)
     \<and> crlf_lines head = request_line req # map (\<lambda>(n, v). n @ '': '' @ v) (ordered_fields p h) @ [[], []]
     \<and> header_wf h \<and> mset (ordered_fields p h) = mset (concat (map (\<lambda>(k, vs). map (Pair k) vs) h))
     \<and> filter (\<lambda>(n, _). n = ''Host'') (ordered_fields p h) = [(''Host'', requestAuthority req)]
     \<and> header_index h ''Host'' = Some [requestAuthority req]
     \<and> (body \<noteq> [] \<longrightarrow> (\<exists>v. header_index h ''Content-Length'' = Some [v] \<and> atoi_value v = int (length body)))
     \<and> (\<forall>k. k \<noteq> ''Host'' \<and> k \<noteq> ''Content-Length'' \<longrightarrow> header_index h k = header_index (ReqHeader req) k)"
proof -
  define has where "has = (Body req \<noteq> None \<and> Body req \<noteq> Some NoBody)"
  let ?h = "http1_headers req body has"
  have hb: "body \<noteq> [] \<Longrightarrow> has" using assms(3) by (auto simp: has_def)
  have run: "WriteRequestHTTP1 req p c = (Inr (), c\<lparr>tx := tx c @ bytes_of (http1_head req p ?h) @ body\<rparr>)"
    unfolding has_def using assms(1,3) by (auto simp: WriteRequestHTTP1_def Let_def io_defs io_ReadAll_def io_write_def)
  have idx: "header_index ?h k = (if k = ''Content-Length'' \<and> (has \<or> Method req = ''POST'' \<or> Method req = ''PUT'')
        then Some [itoa (length body)] else if k = ''Host'' then Some [requestAuthority req]
        else header_index (ReqHeader req) k)" for k
    using assms(2) by (auto simp: http1_headers_def Let_def hdr.lookup_put header_wf_Set)
  have safe: "line_safe v \<and> line_safe k" if "header_index ?h k = Some vs" "v \<in> set vs" for k v vs
  proof -
    have "line_safe (itoa n)" for n by (auto simp: line_safe_def is_digit_def dest: itoa_digits)
    moreover have "line_safe ''Content-Length''" "line_safe ''Host''" by (simp_all add: line_safe_def)
    moreover have "line_safe v \<and> line_safe k" if "header_index (ReqHeader req) k = Some vs" "v \<in> set vs"
      using that assms(7) by (force simp: header_index_def list_all_iff dest: map_of_SomeD)
    ultimately show ?thesis using that assms(6) by (auto simp: idx split: if_splits)
  qed
  have "list_all (\<lambda>(n, v). line_safe n \<and> line_safe v) (ordered_fields p ?h)"
    by (auto simp: ordered_fields_def list_all_iff split: option.splits dest!: sym [of "Some _"] dest: safe)
  note lines = http1_head_lines [OF assms(4,5) this]
  have wf: "header_wf ?h" by (rule http1_headers_wf [OF assms(2)])
  have "mset (filter (\<lambda>(n, _). n = ''Host'') (ordered_fields p ?h)) = {#(''Host'', requestAuthority req)#}"
    unfolding mset_filter mset_ordered_fields [OF wf] mset_filter [symmetric] fields_named [OF wf] by (simp add: idx)
  then have host: "filter (\<lambda>(n, _). n = ''Host'') (ordered_fields p ?h) = [(''Host'', requestAuthority req)]"
    by (metis mset_filter mset_single_iff_right)
  show ?thesis
    using lines run idx hb atoi_value_itoa [OF assms(8)] wf host mset_ordered_fields [OF wf, of p]
    by (intro exI [of _ ?h] exI [of _ "http1_head req p ?h"]) auto
qed

definition put_profile :: Profile where
  "put_profile = \<lparr>Name = ''p'', Aliases = [], Description = [], ClientHello = ''chrome'', UserAgent = ''u'', ALPN = [''h2''],
      Headers = \<lparr>Order = [''host''], SetHeaders = []\<rparr>, HTTP2 = None\<rparr>"

definition put_request :: Request where
  "put_request = \<lparr>Method = ''PUT'', URL_Scheme = ''https'', URL_Host = ''h.io'', URL_RequestURI = ''/a'', Host = [],
      ReqHeader = [(''X-A'', [''1''])], Body = Some (BodyOf [1, 2] None), ReqContentLength = 2\<rparr>"

definition quiet_conn :: conn where
  "quiet_conn = \<lparr>rx = [], rx_end = EOF, tx = [], writes_left = None\<rparr>"

theorem WriteRequestHTTP1_wire_witness:
  "\<exists>h head. WriteRequestHTTP1 put_request put_profile quiet_conn = (Inr (), quiet_conn\<lparr>tx := bytes_of head @ [1, 2]\<rparr>)
     \<and> crlf_lines head = ''PUT /a HTTP/1.1'' # map (\<lambda>(n, v). n @ '': '' @ v) (ordered_fields put_profile h) @ [[], []]
     \<and> filter (\<lambda>(n, _). n = ''Host'') (ordered_fields put_profile h) = [(''Host'', ''h.io'')]
     \<and> header_index h ''X-A'' = Some [''1'']"
proof -
  have a: "requestAuthority put_request = ''h.io''" "request_line put_request = ''PUT /a HTTP/1.1''"
    "tx quiet_conn = []" "header_index (ReqHeader put_request) ''X-A'' = Some [''1'']"
    by (simp_all add: requestAuthority_def put_request_def request_line_def quiet_conn_def header_index_def)
  have "writes_left quiet_conn = None" "header_wf (ReqHeader put_request)" "Body put_request = Some (BodyOf [1, 2] None)"
    "line_safe (Method put_request)" "line_safe (URL_RequestURI put_request)" "line_safe (requestAuthority put_request)"
    "list_all (\<lambda>(n, vs). line_safe n \<and> list_all line_safe vs) (ReqHeader put_request)" "length [1 :: byte, 2] < 2 ^ 63"
    by (simp_all add: quiet_conn_def put_request_def header_wf_def line_safe_def requestAuthority_def)
  from WriteRequestHTTP1_wire [OF this(1,2) disjI2 [OF disjI2 [OF this(3)]] this(4-8), of put_profile]
  obtain h head where "WriteRequestHTTP1 put_request put_profile quiet_conn = (Inr (), quiet_conn\<lparr>tx := tx quiet_conn @ bytes_of head @ [1, 2]\<rparr>)"
     "crlf_lines head = request_line put_request # map (\<lambda>(n, v). n @ '': '' @ v) (ordered_fields put_profile h) @ [[], []]"
     "filter (\<lambda>(n, _). n = ''Host'') (ordered_fields put_profile h) = [(''Host'', requestAuthority put_request)]"
     "\<forall>k. k \<noteq> ''Host'' \<and> k \<noteq> ''Content-Length'' \<longrightarrow> header_index h k = header_index (ReqHeader put_request) k"
    by blast
  with a show ?thesis by (intro exI [of _ h] exI [of _ head]) simp
qed

end
