(* ===== verification/H2_Headers.thy ===== *)
theory H2_Headers
  imports Http_Message
begin

text \<open>
  What an HTTP/2 connection says of the device: the settings and the window of
  \<open>internal/upstream/h2profile.go\<close>, and the header fields of a request in the profile's order
  (\<open>pseudoHeaders\<close>, \<open>regularHeaders\<close> of \<open>h2client_response.go\<close>, \<open>headerBlock\<close> of \<open>h2client.go\<close>).
\<close>

section \<open>Settings\<close>

datatype SettingID =
    SettingHeaderTableSize | SettingEnablePush | SettingMaxConcurrentStreams
  | SettingInitialWindowSize | SettingMaxFrameSize | SettingMaxHeaderListSize

definition h2SettingID :: "string \<Rightarrow> go_error + SettingID" where
  "h2SettingID name =
     (let n = ToUpper (TrimSpace name)
      in if n = ''HEADER_TABLE_SIZE'' then Inr SettingHeaderTableSize
         else if n = ''ENABLE_PUSH'' then Inr SettingEnablePush
         else if n = ''MAX_CONCURRENT_STREAMS'' then Inr SettingMaxConcurrentStreams
         else if n = ''INITIAL_WINDOW_SIZE'' then Inr SettingInitialWindowSize
         else if n = ''MAX_FRAME_SIZE'' then Inr SettingMaxFrameSize
         else if n = ''MAX_HEADER_LIST_SIZE'' then Inr SettingMaxHeaderListSize
         else Inl (Errorf (''unknown HTTP/2 setting '' @ quote name)))"

definition defaultH2Settings :: "(SettingID \<times> 32 word) list" where
  "defaultH2Settings =
     [(SettingEnablePush, 0), (SettingInitialWindowSize, 4194304), (SettingMaxFrameSize, 16384),
      (SettingMaxHeaderListSize, 10485760)]"

fun convert_settings :: "HTTP2Setting list \<Rightarrow> (SettingID \<times> 32 word) list \<Rightarrow> go_error + (SettingID \<times> 32 word) list" where
  "convert_settings [] out = Inr out"
| "convert_settings (s # ss) out =
     (case h2SettingID (SettingName s) of
        Inl e \<Rightarrow> Inl e
      | Inr i \<Rightarrow> convert_settings ss (out @ [(i, SettingValue s)]))"

definition h2Settings :: "Profile \<Rightarrow> go_error + (SettingID \<times> 32 word) list" where
  "h2Settings p =
     (case HTTP2 p of
        None \<Rightarrow> Inr defaultH2Settings
      | Some h \<Rightarrow> if Settings h = [] then Inr defaultH2Settings else convert_settings (Settings h) [])"

definition h2ConnectionWindowUpdate :: "Profile \<Rightarrow> 32 word" where
  "h2ConnectionWindowUpdate p =
     (case HTTP2 p of
        Some h \<Rightarrow> if 0 < ConnectionWindowUpdate h then ConnectionWindowUpdate h else 1073741824
      | None \<Rightarrow> 1073741824)"

definition default_pseudo_order :: "string list" where
  "default_pseudo_order = ['':method'', '':authority'', '':scheme'', '':path'']"

definition h2PseudoHeaderOrder :: "Profile \<Rightarrow> string list" where
  "h2PseudoHeaderOrder p =
     (case HTTP2 p of
        Some h \<Rightarrow> if PseudoHeaderOrder h \<noteq> [] then PseudoHeaderOrder h else default_pseudo_order
      | None \<Rightarrow> default_pseudo_order)"

section \<open>Header fields\<close>

type_synonym field = "string \<times> string"

text \<open>A string map: \<open>values[name]\<close> is empty for a missing key.\<close>

definition value_at :: "(string \<times> string) list \<Rightarrow> string \<Rightarrow> string" where
  "value_at vs name = (case map_of vs name of Some v \<Rightarrow> v | None \<Rightarrow> [])"

definition pseudo_values :: "Request \<Rightarrow> (string \<times> string) list" where
  "pseudo_values req =
     [('':method'', Method req), ('':scheme'', URL_Scheme req), ('':path'', URL_RequestURI req),
      ('':authority'', requestAuthority req)]"

fun pseudo_ordered :: "string list \<Rightarrow> (string \<times> string) list \<Rightarrow> field list \<Rightarrow> field list \<times> (string \<times> string) list" where
  "pseudo_ordered [] vs out = (out, vs)"
| "pseudo_ordered (name # names) vs out =
     (if value_at vs name \<noteq> [] then pseudo_ordered names (AList.delete name vs) (out @ [(name, value_at vs name)])
      else pseudo_ordered names vs out)"

definition pseudoHeaders :: "Request \<Rightarrow> Profile \<Rightarrow> field list" where
  "pseudoHeaders req p =
     (case pseudo_ordered (h2PseudoHeaderOrder p) (pseudo_values req) [] of
        (out, vs) \<Rightarrow> out @ map (\<lambda>name. (name, value_at vs name))
                         (filter (\<lambda>name. value_at vs name \<noteq> []) default_pseudo_order))"

definition h2_request_headers :: "Request \<Rightarrow> nat \<Rightarrow> header" where
  "h2_request_headers req bodyLen =
     (let headers = filter (\<lambda>(name, _). \<not> (EqualFold name ''Host'' \<or> EqualFold name ''Connection'')) (ReqHeader req)
      in if 0 < bodyLen then header_Set headers ''Content-Length'' (itoa bodyLen) else headers)"

definition field_lines :: "header \<Rightarrow> string \<Rightarrow> field list" where
  "field_lines headers key =
     map (Pair (ToLower key)) (case header_index headers key of Some vs \<Rightarrow> vs | None \<Rightarrow> [])"

definition regularHeaders :: "Request \<Rightarrow> Profile \<Rightarrow> nat \<Rightarrow> field list" where
  "regularHeaders req p bodyLen =
     (let headers = h2_request_headers req bodyLen;
          keys = OrderHeaders p headers;
          ordered = concat (map (field_lines headers) keys);
          seen = map ToLower keys;
          rest = sort_Strings (filter (\<lambda>key. \<not> List.member seen (ToLower key)) (map fst headers))
      in ordered @ concat (map (field_lines headers) rest))"

text \<open>
  \<open>headerBlock\<close>: every block gets a fresh HPACK encoder over an empty buffer. \<open>WriteField\<close> belongs
  to the \<open>hpack\<close> package: an argument that maps the fields already written to the block and the
  next one to the bytes it appends.
\<close>

fun write_fields :: "(field list \<Rightarrow> field \<Rightarrow> go_error + bytes) \<Rightarrow> field list \<Rightarrow> field list \<Rightarrow> bytes \<Rightarrow> go_error + bytes" where
  "write_fields WriteField written [] buf = Inr buf"
| "write_fields WriteField written (hf # hfs) buf =
     (case WriteField written hf of
        Inl e \<Rightarrow> Inl e
      | Inr b \<Rightarrow> write_fields WriteField (written @ [hf]) hfs (buf @ b))"

definition headerBlock ::
  "(field list \<Rightarrow> field \<Rightarrow> go_error + bytes) \<Rightarrow> Request \<Rightarrow> Profile \<Rightarrow> nat \<Rightarrow> go_error + bytes" where
  "headerBlock WriteField req p bodyLen =
     write_fields WriteField [] (pseudoHeaders req p @ regularHeaders req p bodyLen) []"

section \<open>Settings are the profile's\<close>

lemma convert_settings_Inr:
  "convert_settings ss out = Inr r \<longleftrightarrow>
     (\<exists>new. r = out @ new \<and> map snd new = map SettingValue ss
        \<and> map (\<lambda>s. h2SettingID (SettingName s)) ss = map (Inr \<circ> fst) new)"
proof (induction ss arbitrary: out)
  case (Cons s ss)
  show ?case
  proof (cases "h2SettingID (SettingName s)")
    case (Inl e)
    then show ?thesis by (auto simp: Cons_eq_map_conv)
  next
    case (Inr i)
    have "(\<exists>new. r = out @ new \<and> map snd new = SettingValue s # map SettingValue ss
        \<and> Inr i # map (\<lambda>s. h2SettingID (SettingName s)) ss = map (Inr \<circ> fst) new) \<longleftrightarrow>
      (\<exists>new. r = (out @ [(i, SettingValue s)]) @ new \<and> map snd new = map SettingValue ss
        \<and> map (\<lambda>s. h2SettingID (SettingName s)) ss = map (Inr \<circ> fst) new)"
      by (auto simp: map_eq_Cons_conv Cons_eq_map_conv)
    with Inr Cons.IH show ?thesis by (simp add: comp_def)
  qed
qed auto

text \<open>The settings frame carries the profile's settings, in order and with their values, or the defaults
  when it has none, and only an unknown setting name stops it.\<close>

theorem h2Settings_faithful:
  "h2Settings p = Inr out \<longleftrightarrow>
     (let ss = (case HTTP2 p of Some h \<Rightarrow> Settings h | None \<Rightarrow> [])
      in if ss = [] then out = defaultH2Settings
         else map snd out = map SettingValue ss \<and>
              map (\<lambda>s. h2SettingID (SettingName s)) ss = map (Inr \<circ> fst) out)"
  by (auto simp: h2Settings_def convert_settings_Inr Let_def split: option.split)

text \<open>The connection window update is never zero, although the profile documents zero as none: a profile
  that asks for no update gets the default of 2^30 bytes.\<close>

theorem h2ConnectionWindowUpdate_value:
  "h2ConnectionWindowUpdate p =
     (case HTTP2 p of Some h \<Rightarrow> if ConnectionWindowUpdate h = 0 then 2 ^ 30 else ConnectionWindowUpdate h
      | None \<Rightarrow> 2 ^ 30) \<and> h2ConnectionWindowUpdate p \<noteq> 0"
  by (auto simp: h2ConnectionWindowUpdate_def word_neq_0_conv split: option.split)

section \<open>Pseudo header fields\<close>

lemma value_at_delete [simp]:
  "value_at (AList.delete n vs) m = (if m = n then [] else value_at vs m)"
  by (simp add: value_at_def map_of_delete delete_conv')

text \<open>Keeping the first occurrence of every name.\<close>

definition firsts :: "'a list \<Rightarrow> 'a list" where
  "firsts xs = rev (remdups (rev xs))"

lemma set_firsts [simp]: "set (firsts xs) = set xs" and distinct_firsts [simp]: "distinct (firsts xs)"
  by (simp_all add: firsts_def)

lemma firsts_Cons: "firsts (x # xs) = x # filter (\<lambda>y. y \<noteq> x) (firsts xs)"
proof -
  have "remdups (ys @ [x]) = filter (\<lambda>y. y \<noteq> x) (remdups ys) @ [x]" for ys
    by (induction ys) auto
  then show ?thesis by (simp add: firsts_def rev_filter)
qed

lemma pseudo_ordered_spec:
  "pseudo_ordered names vs out = (r, vs') \<Longrightarrow>
     r = out @ map (\<lambda>n. (n, value_at vs n)) (firsts (filter (\<lambda>n. value_at vs n \<noteq> []) names))
     \<and> (\<forall>m. value_at vs' m = (if m \<in> set names then [] else value_at vs m))"
proof (induction names arbitrary: vs out)
  case Nil
  then show ?case by (simp add: firsts_def)
next
  case (Cons n names)
  show ?case
  proof (cases "value_at vs n = []")
    case True
    with Cons show ?thesis by (auto simp del: value_at_delete)
  next
    case False
    with Cons.prems have "pseudo_ordered names (AList.delete n vs) (out @ [(n, value_at vs n)]) = (r, vs')" by simp
    from Cons.IH [OF this] have ih: "r = (out @ [(n, value_at vs n)]) @
        map (\<lambda>m. (m, value_at (AList.delete n vs) m)) (firsts (filter (\<lambda>m. value_at (AList.delete n vs) m \<noteq> []) names))"
      "\<forall>m. value_at vs' m = (if m \<in> set names then [] else value_at (AList.delete n vs) m)" by auto
    have "firsts (filter (\<lambda>m. value_at (AList.delete n vs) m \<noteq> []) names)
        = filter (\<lambda>m. m \<noteq> n) (firsts (filter (\<lambda>m. value_at vs m \<noteq> []) names))"
    proof -
      have f: "firsts (filter P xs) = filter P (firsts xs)" for P and xs :: "string list"
      proof -
        have "remdups (filter P ys) = filter P (remdups ys)" for ys by (induction ys) auto
        then show ?thesis by (simp only: firsts_def rev_filter)
      qed
      have "filter (\<lambda>m. value_at (AList.delete n vs) m \<noteq> []) names
          = filter (\<lambda>m. m \<noteq> n) (filter (\<lambda>m. value_at vs m \<noteq> []) names)"
        by (auto intro!: filter_cong)
      then show ?thesis by (simp only: f)
    qed
    moreover have "map (\<lambda>m. (m, value_at (AList.delete n vs) m)) (filter (\<lambda>m. m \<noteq> n) xs)
        = map (\<lambda>m. (m, value_at vs m)) (filter (\<lambda>m. m \<noteq> n) xs)" for xs
      by simp
    ultimately show ?thesis using ih False by (auto simp: firsts_Cons)
  qed
qed

text \<open>C35: the pseudo header fields are exactly the request's non-empty method, scheme, path and authority,
  once each: in the profile's order, whatever it repeats or misspells, and those it leaves out after them.\<close>

theorem pseudoHeaders_fingerprint:
  "\<exists>named rest. map fst (pseudoHeaders req p) = named @ rest
     \<and> named = firsts (filter (\<lambda>n. value_at (pseudo_values req) n \<noteq> []) (h2PseudoHeaderOrder p))
     \<and> rest = filter (\<lambda>n. n \<notin> set named \<and> value_at (pseudo_values req) n \<noteq> []) default_pseudo_order
     \<and> distinct (named @ rest)
     \<and> set (pseudoHeaders req p) = {(n, v) \<in> set (pseudo_values req). v \<noteq> []}"
proof -
  let ?vs = "pseudo_values req"
  let ?named = "firsts (filter (\<lambda>n. value_at ?vs n \<noteq> []) (h2PseudoHeaderOrder p))"
  let ?rest = "filter (\<lambda>n. n \<notin> set ?named \<and> value_at ?vs n \<noteq> []) default_pseudo_order"
  obtain r vs' where r: "pseudo_ordered (h2PseudoHeaderOrder p) ?vs [] = (r, vs')" by force
  from pseudo_ordered_spec [OF r] have r': "r = map (\<lambda>n. (n, value_at ?vs n)) ?named"
    "\<And>m. value_at vs' m = (if m \<in> set (h2PseudoHeaderOrder p) then [] else value_at ?vs m)" by auto
  have rest: "filter (\<lambda>n. value_at vs' n \<noteq> []) default_pseudo_order = ?rest"
    by (rule filter_cong) (auto simp: r'(2))
  have val: "value_at vs' n = value_at ?vs n" if "n \<in> set ?rest" for n using that by (auto simp: r'(2))
  have "pseudoHeaders req p = map (\<lambda>n. (n, value_at ?vs n)) ?named @ map (\<lambda>n. (n, value_at vs' n)) ?rest"
    unfolding pseudoHeaders_def r rest prod.case r'(1) ..
  also have "map (\<lambda>n. (n, value_at vs' n)) ?rest = map (\<lambda>n. (n, value_at ?vs n)) ?rest"
    using val by (intro map_cong) auto
  finally have out: "pseudoHeaders req p = map (\<lambda>n. (n, value_at ?vs n)) (?named @ ?rest)" by simp
  have d: "distinct (?named @ ?rest)" by (auto simp: default_pseudo_order_def)
  have known: "value_at ?vs n \<noteq> [] \<Longrightarrow> n \<in> set default_pseudo_order" for n
    by (auto simp: value_at_def pseudo_values_def default_pseudo_order_def split: if_splits)
  have "set (?named @ ?rest) = {n. value_at ?vs n \<noteq> []}" using known by auto
  then have "set (pseudoHeaders req p) = {(n, v). v = value_at ?vs n \<and> v \<noteq> []}" unfolding out by auto
  also have "\<dots> = {(n, v) \<in> set ?vs. v \<noteq> []}"
    by (auto simp: value_at_def pseudo_values_def split: if_splits)
  finally show ?thesis using d out by (rule_tac x = ?named in exI, rule_tac x = ?rest in exI) (simp add: comp_def)
qed

section \<open>Regular header fields\<close>

lemma h2_request_headers_wf:
  "header_wf (ReqHeader req) \<Longrightarrow> header_wf (h2_request_headers req n)"
  by (auto simp: h2_request_headers_def Let_def header_wf_def intro!: header_wf_Set [unfolded header_wf_def] distinct_map_filter)

text \<open>The second pass over the header finds nothing: the profile's ordering returns every key.\<close>

lemma regularHeaders_ordered:
  "regularHeaders req p n = concat (map (field_lines (h2_request_headers req n)) (OrderHeaders p (h2_request_headers req n)))"
proof -
  have "filter (\<lambda>key. \<not> List.member (map ToLower (OrderHeaders p h)) (ToLower key)) (map fst h) = []" for h
    by (auto simp: filter_empty_conv set_OrderHeaders)
  then show ?thesis by (simp add: regularHeaders_def Let_def sort_Strings_def)
qed

lemma regular_fields:
  assumes "header_wf (ReqHeader req)"
  shows "\<exists>h. regularHeaders req p n = map (\<lambda>(k, v). (ToLower k, v)) (ordered_fields p h)
     \<and> header_wf h
     \<and> (\<forall>k. header_index h k =
          (if 0 < n \<and> k = ''Content-Length'' then Some [itoa n]
           else if EqualFold k ''Host'' \<or> EqualFold k ''Connection'' then None
           else header_index (ReqHeader req) k))"
proof -
  let ?h = "h2_request_headers req n"
  have "concat (map (field_lines ?h) ks) = map (\<lambda>(k, v). (ToLower k, v))
      (concat (map (\<lambda>k. map (Pair k) (case header_index ?h k of Some vs \<Rightarrow> vs | None \<Rightarrow> [])) ks))" for ks
    by (induction ks) (simp_all add: field_lines_def)
  then have "regularHeaders req p n = map (\<lambda>(k, v). (ToLower k, v)) (ordered_fields p ?h)"
    by (simp add: regularHeaders_ordered ordered_fields_def)
  moreover have "map_of (filter (\<lambda>(name, _). Q name) l) k = (if Q k then map_of l k else None)"
    for Q and l :: header and k
    by (induction l) auto
  note filt = this
  have "\<not> EqualFold ''Content-Length'' ''Host''" "\<not> EqualFold ''Content-Length'' ''Connection''" by code_simp+
  then have "header_index ?h k = (if 0 < n \<and> k = ''Content-Length'' then Some [itoa n]
           else if EqualFold k ''Host'' \<or> EqualFold k ''Connection'' then None
           else header_index (ReqHeader req) k)" for k
    by (auto simp: h2_request_headers_def Let_def header_Set_def header_index_assign)
       (auto simp: header_index_def filt)
  ultimately show ?thesis using h2_request_headers_wf [OF assms] by blast
qed

text \<open>The regular fields are the request's header without Host and Connection, plus a Content-Length when
  there is a body: every value of every key once, names in lower case, keys in the profile's order.\<close>

theorem regularHeaders_fields:
  assumes "header_wf (ReqHeader req)"
  shows "\<exists>h. regularHeaders req p n = map (\<lambda>(k, v). (ToLower k, v)) (ordered_fields p h)
     \<and> header_wf h
     \<and> (\<forall>k. header_index h k =
          (if 0 < n \<and> k = ''Content-Length'' then Some [itoa n]
           else if EqualFold k ''Host'' \<or> EqualFold k ''Connection'' then None
           else header_index (ReqHeader req) k))"
  using assms by (rule regular_fields)

theorem regularHeaders_fields_witness:
  "\<exists>h. regularHeaders \<lparr>Method = ''GET'', URL_Scheme = ''https'', URL_Host = ''h.io'', URL_RequestURI = ''/'', Host = [],
      ReqHeader = [(''Accept'', [''a'', ''b'']), (''Connection'', [''close''])], Body = None, ReqContentLength = 0\<rparr>
     \<lparr>Name = ''p'', Aliases = [], Description = [], ClientHello = ''chrome'', UserAgent = ''u'', ALPN = [''h2''],
      Headers = \<lparr>Order = [''accept''], SetHeaders = []\<rparr>, HTTP2 = None\<rparr> 0
      = map (\<lambda>(k, v). (ToLower k, v)) (ordered_fields \<lparr>Name = ''p'', Aliases = [], Description = [], ClientHello = ''chrome'', UserAgent = ''u'', ALPN = [''h2''],
      Headers = \<lparr>Order = [''accept''], SetHeaders = []\<rparr>, HTTP2 = None\<rparr> h)
     \<and> header_index h ''Connection'' = None \<and> header_index h ''Accept'' = Some [''a'', ''b'']"
proof -
  let ?r = "\<lparr>Method = ''GET'', URL_Scheme = ''https'', URL_Host = ''h.io'', URL_RequestURI = ''/'', Host = [],
      ReqHeader = [(''Accept'', [''a'', ''b'']), (''Connection'', [''close''])], Body = None, ReqContentLength = 0\<rparr>"
  let ?p = "\<lparr>Name = ''p'', Aliases = [], Description = [], ClientHello = ''chrome'', UserAgent = ''u'', ALPN = [''h2''],
      Headers = \<lparr>Order = [''accept''], SetHeaders = []\<rparr>, HTTP2 = None\<rparr>"
  have "header_wf (ReqHeader ?r)" by (simp add: header_wf_def)
  from regularHeaders_fields [OF this, of ?p 0] obtain h where
    h: "regularHeaders ?r ?p 0 = map (\<lambda>(k, v). (ToLower k, v)) (ordered_fields ?p h)"
    "\<forall>k. header_index h k = (if EqualFold k ''Host'' \<or> EqualFold k ''Connection'' then None else header_index (ReqHeader ?r) k)"
    by auto
  moreover have "\<not> EqualFold ''Accept'' ''Host''" "\<not> EqualFold ''Accept'' ''Connection''" by code_simp+
  ultimately show ?thesis by (auto simp: header_index_def)
qed

end
