(* ===== verification/H2_Client.thy ===== *)
theory H2_Client
  imports H2_Headers
begin

text \<open>
  The HTTP/2 client connection of \<open>internal/upstream/h2client.go\<close> and
  \<open>h2client_response.go\<close>. \<open>h2ClientConn\<close> and \<open>h2Stream\<close> are shared between the goroutines of the
  callers and the read loop; every function below is one section of code that runs under the
  connection's mutex or touches a single channel or pipe, and \<open>h2_step\<close> interleaves them.

  The framer's writes are an argument \<open>wr\<close>: given the frames written so far and the next one it
  says whether the write fails. A stream object's identity is its index in \<open>objs\<close>.
\<close>

section \<open>State\<close>

datatype h2_frame =
    FPreface
  | FSettings "(SettingID \<times> 32 word) list"
  | FWindowUpdate "32 word" "32 word"
  | FHeaders "32 word" bytes bool
  | FData "32 word" bool bytes
  | FSettingsAck
  | FPingAck bytes

type_synonym framer = "h2_frame list \<Rightarrow> h2_frame \<Rightarrow> go_error option"
type_synonym encoder = "field list \<Rightarrow> field \<Rightarrow> go_error + bytes"

text \<open>
  A stream object: two channels of capacity one, and the body pipe: the bytes its reader has
  taken, the error stored by the first close of the write end (\<open>EOF\<close> for a plain close) and
  whether the read end is closed.
\<close>

record h2Stream =
  st_req :: Request
  st_headers :: "Response option"
  st_errs :: "go_error option"
  st_body :: bytes
  st_wclosed :: "go_error option"
  st_rclosed :: bool
  st_trailers :: "header option"

record h2ClientConn =
  nextID :: "32 word"
  streams :: "(32 word \<times> nat) list"
  cc_closed :: bool
  objs :: "h2Stream list"
  sent :: "h2_frame list"
  conn_closed :: bool

definition new_stream :: "Request \<Rightarrow> h2Stream" where
  "new_stream req = \<lparr>st_req = req, st_headers = None, st_errs = None, st_body = [], st_wclosed = None,
                      st_rclosed = False, st_trailers = None\<rparr>"

definition write_frame :: "framer \<Rightarrow> h2_frame \<Rightarrow> h2ClientConn \<Rightarrow> (go_error + unit) \<times> h2ClientConn" where
  "write_frame wr f cc =
     (case wr (sent cc) f of
        Some e \<Rightarrow> (Inl e, cc)
      | None \<Rightarrow> (Inr (), cc\<lparr>sent := sent cc @ [f]\<rparr>))"

definition update_obj :: "nat \<Rightarrow> (h2Stream \<Rightarrow> h2Stream) \<Rightarrow> h2ClientConn \<Rightarrow> h2ClientConn" where
  "update_obj ob f cc = cc\<lparr>objs := (objs cc)[ob := f (objs cc ! ob)]\<rparr>"

section \<open>Streams\<close>

text \<open>\<open>bodyW.Close\<close> and \<open>CloseWithError\<close>: the first error stays. \<open>fail\<close>: a full channel drops the error.\<close>

definition close_write :: "go_error \<Rightarrow> h2Stream \<Rightarrow> h2Stream" where
  "close_write e st = st\<lparr>st_wclosed := (case st_wclosed st of None \<Rightarrow> Some e | Some e0 \<Rightarrow> Some e0)\<rparr>"

definition stream_fail :: "go_error \<Rightarrow> h2Stream \<Rightarrow> h2Stream" where
  "stream_fail e st =
     close_write e (st\<lparr>st_errs := (case st_errs st of None \<Rightarrow> Some e | Some e0 \<Rightarrow> Some e0)\<rparr>)"

definition stream_of :: "h2ClientConn \<Rightarrow> 32 word \<Rightarrow> nat option" where
  "stream_of cc i = map_of (streams cc) i"

definition delete_stream :: "32 word \<Rightarrow> h2ClientConn \<Rightarrow> h2ClientConn" where
  "delete_stream i cc = cc\<lparr>streams := AList.delete i (streams cc)\<rparr>"

definition removeStream :: "32 word \<Rightarrow> h2ClientConn \<Rightarrow> h2ClientConn" where
  "removeStream i cc =
     (case stream_of cc i of
        None \<Rightarrow> delete_stream i cc
      | Some ob \<Rightarrow> update_obj ob (close_write EOF) (delete_stream i cc))"

definition endStream :: "32 word \<Rightarrow> h2ClientConn \<Rightarrow> h2ClientConn" where
  "endStream i cc = removeStream i cc"

definition failStream :: "32 word \<Rightarrow> go_error \<Rightarrow> h2ClientConn \<Rightarrow> h2ClientConn" where
  "failStream i e cc =
     (case stream_of cc i of
        None \<Rightarrow> delete_stream i cc
      | Some ob \<Rightarrow> update_obj ob (stream_fail e) (delete_stream i cc))"

definition fail_streams :: "go_error \<Rightarrow> (32 word \<times> nat) list \<Rightarrow> h2ClientConn \<Rightarrow> h2ClientConn" where
  "fail_streams e ss cc = fold (\<lambda>(_, ob). update_obj ob (stream_fail e)) ss cc"

definition failAll :: "go_error \<Rightarrow> h2ClientConn \<Rightarrow> h2ClientConn" where
  "failAll e cc =
     (fail_streams e (streams cc) (cc\<lparr>cc_closed := True, streams := []\<rparr>))\<lparr>conn_closed := True\<rparr>"

definition Close :: "h2ClientConn \<Rightarrow> h2ClientConn" where
  "Close cc =
     (if cc_closed cc then cc
      else (fail_streams (Errorf ''http/2 connection closed'') (streams cc)
              (cc\<lparr>cc_closed := True, streams := []\<rparr>))\<lparr>conn_closed := True\<rparr>)"

definition CanTakeNewRequest :: "h2ClientConn \<Rightarrow> bool" where
  "CanTakeNewRequest cc \<longleftrightarrow> \<not> cc_closed cc"

definition writeControl :: "framer \<Rightarrow> h2_frame list \<Rightarrow> h2ClientConn \<Rightarrow> h2ClientConn" where
  "writeControl wr fs cc =
     (if cc_closed cc then cc
      else snd (fold (\<lambda>f (r, cc). case r of Inl e \<Rightarrow> (Inl e, cc) | Inr _ \<Rightarrow> write_frame wr f cc) fs (Inr (), cc)))"

section \<open>Opening a connection\<close>

definition empty_conn :: h2ClientConn where
  "empty_conn = \<lparr>nextID = 1, streams = [], cc_closed = False, objs = [], sent = [], conn_closed = False\<rparr>"

definition newH2ClientConn :: "framer \<Rightarrow> Profile \<Rightarrow> (go_error + unit) \<times> h2ClientConn" where
  "newH2ClientConn wr p =
     (let cc = empty_conn; closed = (\<lambda>cc. cc\<lparr>conn_closed := True\<rparr>)
      in case h2Settings p of
           Inl e \<Rightarrow> (Inl e, closed cc)
         | Inr settings \<Rightarrow>
             (case write_frame wr FPreface cc of
                (Inl e, cc) \<Rightarrow> (Inl (Wrapf ''write http/2 preface'' e), closed cc)
              | (Inr _, cc) \<Rightarrow>
                  (case write_frame wr (FSettings settings) cc of
                     (Inl e, cc) \<Rightarrow> (Inl (Wrapf ''write http/2 settings'' e), closed cc)
                   | (Inr _, cc) \<Rightarrow>
                       (if 0 < h2ConnectionWindowUpdate p then
                          (case write_frame wr (FWindowUpdate 0 (h2ConnectionWindowUpdate p)) cc of
                             (Inl e, cc) \<Rightarrow> (Inl (Wrapf ''write http/2 window update'' e), closed cc)
                           | (Inr _, cc) \<Rightarrow> (Inr (), cc))
                        else (Inr (), cc)))))"

section \<open>Sending a request\<close>

function write_data :: "framer \<Rightarrow> 32 word \<Rightarrow> bytes \<Rightarrow> h2ClientConn \<Rightarrow> (go_error + unit) \<times> h2ClientConn" where
  "write_data wr i body cc =
     (if body = [] then (Inr (), cc)
      else let n = (if 16384 < length body then 16384 else length body);
               chunk = take n body; rest = drop n body
        in case write_frame wr (FData i (rest = []) chunk) cc of
             (Inl e, cc) \<Rightarrow> (Inl (Wrapf ''write http/2 data'' e), cc)
           | (Inr _, cc) \<Rightarrow> write_data wr i rest cc)"
  by pat_completeness auto
termination by (relation "measure (\<lambda>(_, _, body, _). length body)") auto

declare write_data.simps [simp del]

definition writeRequest ::
  "framer \<Rightarrow> encoder \<Rightarrow> Profile \<Rightarrow> Request \<Rightarrow> bytes \<Rightarrow> nat \<Rightarrow> h2ClientConn \<Rightarrow>
   (go_error + 32 word) \<times> h2ClientConn" where
  "writeRequest wr enc p req body ob cc =
     (if cc_closed cc then (Inl (Errorf ''http/2 connection closed''), cc)
      else let i = nextID cc;
               cc = cc\<lparr>nextID := i + 2, streams := AList.update i ob (streams cc)\<rparr>
        in case headerBlock enc req p (length body) of
             Inl e \<Rightarrow> (Inl e, delete_stream i cc)
           | Inr block \<Rightarrow>
               (case write_frame wr (FHeaders i block (length body = 0)) cc of
                  (Inl e, cc) \<Rightarrow> (Inl (Wrapf ''write http/2 headers'' e), delete_stream i cc)
                | (Inr _, cc) \<Rightarrow>
                    (case write_data wr i body cc of
                       (Inl e, cc) \<Rightarrow> (Inl e, delete_stream i cc)
                     | (Inr _, cc) \<Rightarrow> (Inr i, cc))))"

text \<open>The first half of \<open>RoundTrip\<close>: read the body, make the stream object, write the request.\<close>

definition start_request ::
  "framer \<Rightarrow> encoder \<Rightarrow> Profile \<Rightarrow> Request \<Rightarrow> h2ClientConn \<Rightarrow> (go_error + 32 word) \<times> h2ClientConn" where
  "start_request wr enc p req cc =
     (case readRequestBody req of
        Inl e \<Rightarrow> (Inl e, cc)
      | Inr body \<Rightarrow>
          writeRequest wr enc p req body (length (objs cc)) (cc\<lparr>objs := objs cc @ [new_stream req]\<rparr>))"

section \<open>Receiving\<close>

text \<open>The frames \<open>ReadFrame\<close> hands to the read loop; \<open>InOther\<close> is any type it ignores.\<close>

datatype h2_in =
    InSettings bool
  | InPing bool bytes
  | InHeaders "32 word" "field list" bool
  | InData "32 word" bytes bool
  | InRST "32 word" string
  | InGoAway string
  | InOther

definition collect_field :: "field \<Rightarrow> int \<times> header \<Rightarrow> int \<times> header" where
  "collect_field hf acc =
     (case (hf, acc) of ((name, value), (status, headers)) \<Rightarrow>
        if name = '':status'' then (atoi_value value, headers)
        else if \<not> HasPrefix name '':'' then (status, header_Add headers (CanonicalHeaderKey name) value)
        else (status, headers))"

definition response_of :: "field list \<Rightarrow> Response option" where
  "response_of hfs =
     (let (status, headers) = fold collect_field hfs (0, [])
      in if status = 0 then None
         else let cl = header_Get headers ''Content-Length''
           in Some \<lparr>StatusCode = status, Status = itoa_int status @ '' '' @ StatusText status,
                   Proto = ''HTTP/2.0'', RespHeader = headers,
                   RespContentLength = (if cl \<noteq> [] then atoi_value cl else - 1),
                   Uncompressed = False, RespTransferEncoding = [], RespClose = False\<rparr>)"

definition deliver_response :: "Response \<Rightarrow> h2Stream \<Rightarrow> h2Stream" where
  "deliver_response resp st =
     (case st_headers st of
        None \<Rightarrow> st\<lparr>st_headers := Some resp\<rparr>
      | Some _ \<Rightarrow> st\<lparr>st_trailers := Some (RespHeader resp)\<rparr>)"

definition handleHeaders :: "32 word \<Rightarrow> field list \<Rightarrow> bool \<Rightarrow> h2ClientConn \<Rightarrow> h2ClientConn" where
  "handleHeaders i hfs ended cc =
     (case stream_of cc i of
        None \<Rightarrow> cc
      | Some ob \<Rightarrow>
          (case response_of hfs of
             None \<Rightarrow> update_obj ob (stream_fail (Errorf ''http/2 response missing :status'')) cc
           | Some resp \<Rightarrow>
               let cc = update_obj ob (deliver_response resp) cc
               in if ended then endStream i cc else cc))"

text \<open>
  \<open>handleData\<close> blocks in \<open>bodyW.Write\<close> until the caller has read the bytes, so the read loop has a
  state of its own: reading frames, or in the middle of a write of a frame of \<open>tot\<close> bytes, with
  \<open>rest\<close> still to be taken.
\<close>

datatype reader = Reading | Writing (w_id: "32 word") (w_obj: nat) (w_rest: bytes) (w_total: nat) (w_ended: bool) | Stopped

definition handleData_begin :: "32 word \<Rightarrow> bytes \<Rightarrow> bool \<Rightarrow> h2ClientConn \<Rightarrow> h2ClientConn \<times> reader" where
  "handleData_begin i data ended cc =
     (case stream_of cc i of
        None \<Rightarrow> (cc, Reading)
      | Some ob \<Rightarrow>
          if data \<noteq> [] then (cc, Writing i ob data (length data) ended)
          else (if ended then endStream i cc else cc, Reading))"

definition pipe_closed :: "h2Stream \<Rightarrow> bool" where
  "pipe_closed st \<longleftrightarrow> st_wclosed st \<noteq> None \<or> st_rclosed st"

text \<open>The write returned: with an error the stream is dropped, otherwise both windows are credited.\<close>

definition handleData_failed :: "32 word \<Rightarrow> h2ClientConn \<Rightarrow> h2ClientConn \<times> reader" where
  "handleData_failed i cc = (removeStream i cc, Reading)"

definition handleData_written :: "framer \<Rightarrow> 32 word \<Rightarrow> nat \<Rightarrow> bool \<Rightarrow> h2ClientConn \<Rightarrow> h2ClientConn \<times> reader" where
  "handleData_written wr i tot ended cc =
     (let incr = word_of_nat tot;
          cc = writeControl wr [FWindowUpdate 0 incr, FWindowUpdate i incr] cc
      in (if ended then endStream i cc else cc, Reading))"

text \<open>One pass of \<open>readLoop\<close> over a frame it has read.\<close>

definition read_frame :: "framer \<Rightarrow> h2_in \<Rightarrow> h2ClientConn \<Rightarrow> h2ClientConn \<times> reader" where
  "read_frame wr f cc =
     (case f of
        InSettings ack \<Rightarrow> (if ack then cc else writeControl wr [FSettingsAck] cc, Reading)
      | InPing ack data \<Rightarrow> (if ack then cc else writeControl wr [FPingAck data] cc, Reading)
      | InHeaders i hfs ended \<Rightarrow> (handleHeaders i hfs ended cc, Reading)
      | InData i data ended \<Rightarrow> handleData_begin i data ended cc
      | InRST i code \<Rightarrow> (failStream i (Errorf (''http/2 stream reset: '' @ code)) cc, Reading)
      | InGoAway code \<Rightarrow> (failAll (Errorf (''http/2 goaway: '' @ code)) cc, Reading)
      | InOther \<Rightarrow> (cc, Reading))"

definition h2Body_Close :: "32 word \<Rightarrow> nat \<Rightarrow> h2ClientConn \<Rightarrow> h2ClientConn" where
  "h2Body_Close i ob cc = removeStream i (update_obj ob (\<lambda>st. st\<lparr>st_rclosed := True\<rparr>) cc)"

section \<open>The goroutines together\<close>

text \<open>A caller of \<open>RoundTrip\<close>: refused before it got a stream, waiting in the \<open>select\<close>, or returned.\<close>

datatype caller =
    Refused go_error
  | Waiting "32 word" nat
  | Returned "32 word" nat "go_error + Response"

text \<open>What happened, in order: a request got its stream identifier, or a frame was read.\<close>

datatype h2_event = Opened "32 word" | Got h2_in

record h2sys =
  hconn :: h2ClientConn
  rloop :: reader
  callers :: "caller list"
  log :: "h2_event list"

definition started :: "h2ClientConn \<Rightarrow> h2sys" where
  "started c = \<lparr>hconn = c, rloop = Reading, callers = [], log = []\<rparr>"

inductive h2_step :: "framer \<Rightarrow> encoder \<Rightarrow> Profile \<Rightarrow> h2sys \<Rightarrow> h2sys \<Rightarrow> bool"
  for wr :: framer and enc :: encoder and p :: Profile where
  start_sent: "start_request wr enc p req (hconn s) = (Inr i, c) \<Longrightarrow>
     h2_step wr enc p s (s\<lparr>hconn := c, callers := callers s @ [Waiting i (length (objs (hconn s)))],
        log := log s @ [Opened i]\<rparr>)"
| start_refused: "start_request wr enc p req (hconn s) = (Inl e, c) \<Longrightarrow>
     h2_step wr enc p s (s\<lparr>hconn := c, callers := callers s @ [Refused e]\<rparr>)"
| take_headers: "k < length (callers s) \<Longrightarrow> callers s ! k = Waiting i ob \<Longrightarrow>
     st_headers (objs (hconn s) ! ob) = Some resp \<Longrightarrow>
     h2_step wr enc p s (s\<lparr>hconn := update_obj ob (\<lambda>st. st\<lparr>st_headers := None\<rparr>) (hconn s),
        callers := (callers s)[k := Returned i ob (Inr resp)]\<rparr>)"
| take_error: "k < length (callers s) \<Longrightarrow> callers s ! k = Waiting i ob \<Longrightarrow>
     st_errs (objs (hconn s) ! ob) = Some e \<Longrightarrow>
     h2_step wr enc p s (s\<lparr>hconn := removeStream i (update_obj ob (\<lambda>st. st\<lparr>st_errs := None\<rparr>) (hconn s)),
        callers := (callers s)[k := Returned i ob (Inl e)]\<rparr>)"
| cancelled: "k < length (callers s) \<Longrightarrow> callers s ! k = Waiting i ob \<Longrightarrow> e \<in> {Canceled, DeadlineExceeded} \<Longrightarrow>
     h2_step wr enc p s (s\<lparr>hconn := removeStream i (hconn s), callers := (callers s)[k := Returned i ob (Inl e)]\<rparr>)"
| body_close: "k < length (callers s) \<Longrightarrow> callers s ! k = Returned i ob (Inr resp) \<Longrightarrow>
     h2_step wr enc p s (s\<lparr>hconn := h2Body_Close i ob (hconn s)\<rparr>)"
| close: "h2_step wr enc p s (s\<lparr>hconn := Close (hconn s)\<rparr>)"
| frame: "rloop s = Reading \<Longrightarrow> read_frame wr f (hconn s) = (c, r) \<Longrightarrow>
     h2_step wr enc p s (s\<lparr>hconn := c, rloop := r, log := log s @ [Got f]\<rparr>)"
| read_error: "rloop s = Reading \<Longrightarrow>
     h2_step wr enc p s (s\<lparr>hconn := failAll (Wrapf ''read http/2 frame'' e) (hconn s), rloop := Stopped\<rparr>)"
| body_read: "rloop s = Writing i ob rest tot ended \<Longrightarrow> 0 < n \<Longrightarrow> n \<le> length rest \<Longrightarrow>
     \<not> pipe_closed (objs (hconn s) ! ob) \<Longrightarrow> k < length (callers s) \<Longrightarrow> callers s ! k = Returned j ob (Inr resp) \<Longrightarrow>
     h2_step wr enc p s (s\<lparr>hconn := update_obj ob (\<lambda>st. st\<lparr>st_body := st_body st @ take n rest\<rparr>) (hconn s),
        rloop := Writing i ob (drop n rest) tot ended\<rparr>)"
| body_written: "rloop s = Writing i ob [] tot ended \<Longrightarrow> handleData_written wr i tot ended (hconn s) = (c, r) \<Longrightarrow>
     h2_step wr enc p s (s\<lparr>hconn := c, rloop := r\<rparr>)"
| body_aborted: "rloop s = Writing i ob rest tot ended \<Longrightarrow> rest \<noteq> [] \<Longrightarrow> pipe_closed (objs (hconn s) ! ob) \<Longrightarrow>
     handleData_failed i (hconn s) = (c, r) \<Longrightarrow>
     h2_step wr enc p s (s\<lparr>hconn := c, rloop := r\<rparr>)"

inductive h2_reach :: "framer \<Rightarrow> encoder \<Rightarrow> Profile \<Rightarrow> h2sys \<Rightarrow> bool"
  for wr :: framer and enc :: encoder and p :: Profile where
  opened: "newH2ClientConn wr p = (Inr (), c) \<Longrightarrow> h2_reach wr enc p (started c)"
| stepped: "h2_reach wr enc p s \<Longrightarrow> h2_step wr enc p s s' \<Longrightarrow> h2_reach wr enc p s'"

inductive_cases h2_stepE: "h2_step wr enc p s s'"

section \<open>What a request looks like on the wire\<close>

lemma write_frame_cases:
  "write_frame wr f c = (Inr (), c\<lparr>sent := sent c @ [f]\<rparr>) \<or> (\<exists>e. write_frame wr f c = (Inl e, c))"
  by (simp add: write_frame_def split: option.split)

lemma write_frame_InrD: "write_frame wr f c = (Inr u, c') \<Longrightarrow> c' = c\<lparr>sent := sent c @ [f]\<rparr>"
  by (auto simp: write_frame_def split: option.splits)

lemma write_frame_InlD: "write_frame wr f c = (Inl e, c') \<Longrightarrow> c' = c"
  by (auto simp: write_frame_def split: option.splits)

definition data_frames :: "32 word \<Rightarrow> bytes list \<Rightarrow> h2_frame list" where
  "data_frames i cs = (if cs = [] then [] else map (FData i False) (butlast cs) @ [FData i True (last cs)])"

lemma write_data_InrD:
  "write_data wr i body c = (Inr u, c') \<Longrightarrow>
     \<exists>cs. c' = c\<lparr>sent := sent c @ data_frames i cs\<rparr> \<and> concat cs = body
        \<and> (\<forall>x\<in>set cs. x \<noteq> [] \<and> length x \<le> 16384)"
proof (induction wr i body c arbitrary: c' rule: write_data.induct)
  case (1 wr i body c)
  show ?case
  proof (cases "body = []")
    case True
    with 1(2) show ?thesis
      by (intro exI [of _ "[]"]) (simp add: data_frames_def write_data.simps)
  next
    case False
    let ?n = "if 16384 < length body then 16384 else length body"
    let ?f = "FData i (drop ?n body = []) (take ?n body)"
    from 1(2) False obtain c1 where w: "write_frame wr ?f c = (Inr (), c1)" and r: "write_data wr i (drop ?n body) c1 = (Inr u, c')"
      by (subst (asm) write_data.simps) (auto simp: Let_def split: prod.splits sum.splits)
    from 1(1) [OF False refl refl refl w [symmetric] refl r] obtain cs where
      cs: "c' = c1\<lparr>sent := sent c1 @ data_frames i cs\<rparr>" "concat cs = drop ?n body"
      "\<forall>x\<in>set cs. x \<noteq> [] \<and> length x \<le> 16384" by blast
    have "cs = [] \<longleftrightarrow> concat cs = []" using cs(3) by (cases cs) auto
    then have "cs = [] \<longleftrightarrow> drop ?n body = []" unfolding cs(2) .
    then have "[?f] @ data_frames i cs = data_frames i (take ?n body # cs)"
      by (cases "cs = []") (auto simp: data_frames_def)
    moreover have "take ?n body \<noteq> [] \<and> length (take ?n body) \<le> 16384" using False by auto
    moreover have "concat (take ?n body # cs) = body" using cs(2) by simp
    ultimately show ?thesis using cs write_frame_InrD [OF w]
      by (intro exI [of _ "take ?n body # cs"]) auto
  qed
qed

lemma write_data_keeps:
  "write_data wr i body c = (r, c') \<Longrightarrow> \<exists>fs. c' = c\<lparr>sent := sent c @ fs\<rparr> \<and> (\<forall>f\<in>set fs. \<exists>e d. f = FData i e d)"
proof (induction wr i body c arbitrary: c' rule: write_data.induct)
  case (1 wr i body c)
  show ?case
  proof (cases "body = []")
    case True
    with 1(2) show ?thesis by (intro exI [of _ "[]"]) (simp add: write_data.simps)
  next
    case False
    let ?n = "if 16384 < length body then 16384 else length body"
    let ?f = "FData i (drop ?n body = []) (take ?n body)"
    show ?thesis
    proof (cases "write_frame wr ?f c")
      case (Pair x c1)
      show ?thesis
      proof (cases x)
        case (Inl e)
        with 1(2) False Pair have "c' = c1" by (subst (asm) write_data.simps) (simp add: Let_def)
        with write_frame_InlD [OF Pair [unfolded Inl]] show ?thesis by (intro exI [of _ "[]"]) simp
      next
        case (Inr u)
        with 1(2) False Pair have r: "write_data wr i (drop ?n body) c1 = (r, c')"
          by (subst (asm) write_data.simps) (simp add: Let_def)
        from 1(1) [OF False refl refl refl Pair [symmetric] Inr r] obtain fs where
          fs: "c' = c1\<lparr>sent := sent c1 @ fs\<rparr>" "\<forall>f\<in>set fs. \<exists>e d. f = FData i e d" by blast
        with write_frame_InrD [OF Pair [unfolded Inr]] show ?thesis
          by (intro exI [of _ "?f # fs"]) auto
      qed
    qed
  qed
qed

text \<open>C10: A request that is sent is, on the wire, one HEADERS frame with the whole header block followed by
  the body in DATA frames of at most 16384 bytes, all on the next odd stream; END_STREAM is on the last
  frame and nowhere else, and nothing of another request comes in between.\<close>

theorem writeRequest_wire:
  assumes "writeRequest wr enc p req body ob c = (Inr i, c')"
  shows "\<exists>block cs. i = nextID c \<and> nextID c' = i + 2 \<and> stream_of c' i = Some ob
     \<and> headerBlock enc req p (length body) = Inr block
     \<and> sent c' = sent c @ FHeaders i block (body = []) # data_frames i cs
     \<and> concat cs = body \<and> (\<forall>x. x \<in> set cs \<longrightarrow> x \<noteq> [] \<and> length x \<le> 16384)"
proof -
  let ?c = "c\<lparr>nextID := nextID c + 2, streams := AList.update (nextID c) ob (streams c)\<rparr>"
  from assms obtain block c1 where b: "headerBlock enc req p (length body) = Inr block" "i = nextID c"
    and w: "write_frame wr (FHeaders i block (length body = 0)) ?c = (Inr (), c1)"
    and d: "write_data wr i body c1 = (Inr (), c')"
    by (auto simp: writeRequest_def Let_def split: if_splits sum.splits prod.splits)
  from write_data_InrD [OF d] obtain cs where cs: "c' = c1\<lparr>sent := sent c1 @ data_frames i cs\<rparr>"
    "concat cs = body" "\<forall>x\<in>set cs. x \<noteq> [] \<and> length x \<le> 16384" by blast
  show ?thesis
    using b cs write_frame_InrD [OF w] by (auto simp: stream_of_def update_conv' intro!: exI [of _ cs])
qed

text \<open>A request that fails to go out leaves no stream behind: the identifier it took is unregistered and
  every other stream is as it was.\<close>

theorem writeRequest_failed:
  assumes "writeRequest wr enc p req body ob c = (Inl e, c')"
  shows "stream_of c' j = (if j = nextID c \<and> \<not> cc_closed c then None else stream_of c j)
     \<and> objs c' = objs c"
proof (cases "cc_closed c")
  case True
  with assms show ?thesis by (auto simp: writeRequest_def)
next
  case False
  let ?i = "nextID c"
  let ?c = "c\<lparr>nextID := ?i + 2, streams := AList.update ?i ob (streams c)\<rparr>"
  have "\<exists>fs. c' = delete_stream ?i (?c\<lparr>sent := sent c @ fs\<rparr>)"
  proof (cases "headerBlock enc req p (length body)")
    case (Inl e1)
    with assms False have "c' = delete_stream ?i ?c" by (simp add: writeRequest_def Let_def)
    then show ?thesis by (intro exI [of _ "[]"]) simp
  next
    case (Inr block)
    let ?h = "FHeaders ?i block (length body = 0)"
    from write_frame_cases [of wr ?h ?c] show ?thesis
    proof
      assume "\<exists>e. write_frame wr ?h ?c = (Inl e, ?c)"
      with assms False Inr have "c' = delete_stream ?i ?c" by (auto simp: writeRequest_def Let_def)
      then show ?thesis by (intro exI [of _ "[]"]) simp
    next
      assume w: "write_frame wr ?h ?c = (Inr (), ?c\<lparr>sent := sent ?c @ [?h]\<rparr>)"
      obtain r c2 where d: "write_data wr ?i body (?c\<lparr>sent := sent ?c @ [?h]\<rparr>) = (r, c2)" by force
      from write_data_keeps [OF d] obtain fs where fs: "c2 = ?c\<lparr>sent := (sent c @ [?h]) @ fs\<rparr>" by auto
      from assms False Inr w d have "c' = delete_stream ?i c2"
        by (auto simp: writeRequest_def Let_def split: sum.splits)
      with fs show ?thesis by (intro exI [of _ "?h # fs"]) simp
    qed
  qed
  with False show ?thesis by (auto simp: delete_stream_def stream_of_def delete_conv' update_conv')
qed

end
