(* ===== verification/Decompress.thy ===== *)
theory Decompress
  imports Http_Message
begin

unbundle bit_operations_syntax

text \<open>
  \<open>internal/upstream/decompress.go\<close>: which decoder a response gets, what becomes of its header, and
  the closing of the decoded body. The decoders themselves (gzip, brotli, zstd, zlib, flate) are
  libraries; the model has the name of the decoder, the result of opening it (\<open>opened\<close>) and the
  bytes the body starts with, which \<open>deflate\<close> peeks at.
\<close>

section \<open>The code\<close>

datatype codec = Gzip | Brotli | Zstd | Zlib | Flate

datatype closer = CloseCodec codec | CloseBody

record decompressBody =
  codec_of :: codec
  closers :: "closer list"

text \<open>\<open>peeked\<close> is what \<open>Peek(2)\<close> returns: the first bytes, fewer than two with an error.\<close>

definition looksLikeZlib :: "bytes \<Rightarrow> bool" where
  "looksLikeZlib peeked =
     (if length peeked < 2 then False
      else if peeked ! 0 AND 0x0f \<noteq> 0x08 then False
      else (push_bit 8 (ucast (peeked ! 0) :: 16 word) OR ucast (peeked ! 1)) mod 31 = 0)"

definition decompressor :: "(codec \<Rightarrow> go_error option) \<Rightarrow> bytes \<Rightarrow> string \<Rightarrow> go_error + decompressBody option" where
  "decompressor opened peeked encoding =
     (if encoding = ''gzip'' \<or> encoding = ''x-gzip'' then
        (case opened Gzip of
           Some e \<Rightarrow> Inl (Wrapf ''gzip reader'' e)
         | None \<Rightarrow> Inr (Some \<lparr>codec_of = Gzip, closers = [CloseCodec Gzip, CloseBody]\<rparr>))
      else if encoding = ''br'' then Inr (Some \<lparr>codec_of = Brotli, closers = [CloseBody]\<rparr>)
      else if encoding = ''zstd'' then
        (case opened Zstd of
           Some e \<Rightarrow> Inl (Wrapf ''zstd reader'' e)
         | None \<Rightarrow> Inr (Some \<lparr>codec_of = Zstd, closers = [CloseCodec Zstd, CloseBody]\<rparr>))
      else if encoding = ''deflate'' then
        (if looksLikeZlib (take 2 peeked) then
           (case opened Zlib of
              Some e \<Rightarrow> Inl (Wrapf ''zlib reader'' e)
            | None \<Rightarrow> Inr (Some \<lparr>codec_of = Zlib, closers = [CloseCodec Zlib, CloseBody]\<rparr>))
         else Inr (Some \<lparr>codec_of = Flate, closers = [CloseCodec Flate, CloseBody]\<rparr>))
      else Inr None)"

text \<open>A response and its body: the transport's own, or one of the decoders over it.\<close>

datatype resp_body = Transport | Decoded decompressBody

definition decodeResponse ::
  "(codec \<Rightarrow> go_error option) \<Rightarrow> bytes \<Rightarrow> Response \<Rightarrow> go_error + (Response \<times> resp_body)" where
  "decodeResponse opened peeked resp =
     (let encoding = ToLower (TrimSpace (header_Get (RespHeader resp) ''Content-Encoding''))
      in if encoding = [] \<or> encoding = ''identity'' then Inr (resp, Transport)
         else case decompressor opened peeked encoding of
             Inl e \<Rightarrow> Inl e
           | Inr None \<Rightarrow> Inr (resp, Transport)
           | Inr (Some decoded) \<Rightarrow>
               Inr (resp\<lparr>RespHeader := header_Del (header_Del (RespHeader resp) ''Content-Encoding'') ''Content-Length'',
                         RespContentLength := - 1, Uncompressed := True\<rparr>, Decoded decoded))"

text \<open>\<open>decompressBody.Close\<close>: the closers that ran, in order, and the error returned.\<close>

fun close_all :: "(closer \<Rightarrow> go_error option) \<Rightarrow> closer list \<Rightarrow> go_error option \<Rightarrow> closer list \<Rightarrow> go_error option \<times> closer list" where
  "close_all close [] firstErr closed = (firstErr, closed)"
| "close_all close (c # cs) firstErr closed =
     (case close c of
        Some e \<Rightarrow> close_all close cs (if firstErr = None then Some e else firstErr) (closed @ [c])
      | None \<Rightarrow> close_all close cs firstErr (closed @ [c]))"

definition decompressBody_Close :: "(closer \<Rightarrow> go_error option) \<Rightarrow> decompressBody \<Rightarrow> go_error option \<times> closer list" where
  "decompressBody_Close close b = close_all close (closers b) None []"

text \<open>\<open>connClosingBody.Close\<close> of \<open>roundtripper.go\<close>: the body's error before the connection's.\<close>

definition connClosingBody_Close :: "go_error option \<Rightarrow> go_error option \<Rightarrow> go_error option" where
  "connClosingBody_Close bodyErr connErr = (if bodyErr \<noteq> None then bodyErr else connErr)"

section \<open>Choosing a decoder\<close>

text \<open>The codings that are decoded, as registered names.\<close>

definition known_coding :: "string \<Rightarrow> bool" where
  "known_coding s \<longleftrightarrow> s \<in> {''gzip'', ''x-gzip'', ''br'', ''zstd'', ''deflate''}"

definition response_coding :: "Response \<Rightarrow> string" where
  "response_coding resp = ToLower (TrimSpace (header_Get (RespHeader resp) ''Content-Encoding''))"

lemma decompressor_None: "decompressor opened peeked s = Inr None \<longleftrightarrow> \<not> known_coding s"
  by (auto simp: decompressor_def known_coding_def split: option.splits)

lemma decompressor_closes_body:
  "decompressor opened peeked s = Inr (Some d) \<Longrightarrow> CloseBody \<in> set (closers d)"
  by (auto simp: decompressor_def split: option.splits if_splits)

lemma unknown_coding_simps: "\<not> known_coding []" "\<not> known_coding ''identity''"
  by (simp_all add: known_coding_def)

text \<open>C28: a response the client gets either is the server's own, header and body, or is decoded and says so: no
  Content-Encoding, no Content-Length, an unknown length, the decoder of its coding and every other header
  field kept. Which of the two depends on the coding alone.\<close>

theorem decodeResponse_consistent:
  assumes "decodeResponse opened peeked resp = Inr (resp', body)" "header_wf (RespHeader resp)"
  shows "if known_coding (response_coding resp)
     then (\<exists>d. body = Decoded d \<and> decompressor opened peeked (response_coding resp) = Inr (Some d))
        \<and> (\<forall>k. header_index (RespHeader resp') k =
             (if k = ''Content-Encoding'' \<or> k = ''Content-Length'' then None else header_index (RespHeader resp) k))
        \<and> RespContentLength resp' = - 1 \<and> Uncompressed resp' \<and> StatusCode resp' = StatusCode resp
     else resp' = resp \<and> body = Transport"
proof (cases "known_coding (response_coding resp)")
  case True
  then have n: "response_coding resp \<noteq> []" "response_coding resp \<noteq> ''identity''" using unknown_coding_simps by auto
  with assms(1) decompressor_None True obtain d where d: "decompressor opened peeked (response_coding resp) = Inr (Some d)"
    "body = Decoded d" "resp' = resp\<lparr>RespHeader := header_Del (header_Del (RespHeader resp) ''Content-Encoding'') ''Content-Length'',
       RespContentLength := - 1, Uncompressed := True\<rparr>"
    by (fastforce simp: decodeResponse_def response_coding_def Let_def split: sum.splits option.splits)
  with True show ?thesis by (auto simp: header_index_Del)
next
  case False
  with decompressor_None have "decompressor opened peeked (response_coding resp) = Inr None" by blast
  with assms(1) False show ?thesis
    by (auto simp: decodeResponse_def response_coding_def Let_def split: if_splits)
qed

theorem decodeResponse_consistent_witness:
  "\<exists>resp' d. decodeResponse (\<lambda>_. None) [0x1f, 0x8b] \<lparr>StatusCode = 200, Status = ''200 OK'', Proto = ''HTTP/2.0'',
       RespHeader = [(''Content-Encoding'', ['' GZip'']), (''Etag'', [''x''])], RespContentLength = 9, Uncompressed = False, RespTransferEncoding = [], RespClose = False\<rparr>
     = Inr (resp', Decoded d) \<and> codec_of d = Gzip \<and> header_index (RespHeader resp') ''Content-Encoding'' = None
     \<and> header_index (RespHeader resp') ''Etag'' = Some [''x''] \<and> RespContentLength resp' = - 1"
proof -
  let ?r = "\<lparr>StatusCode = 200, Status = ''200 OK'', Proto = ''HTTP/2.0'',
       RespHeader = [(''Content-Encoding'', ['' GZip'']), (''Etag'', [''x''])], RespContentLength = 9, Uncompressed = False, RespTransferEncoding = [], RespClose = False\<rparr>"
  have c: "response_coding ?r = ''gzip''" by code_simp
  have "\<exists>resp' b. decodeResponse (\<lambda>_. None) [0x1f, 0x8b] ?r = Inr (resp', b)"
    using c by (simp add: decodeResponse_def response_coding_def decompressor_def)
  then obtain resp' b where d: "decodeResponse (\<lambda>_. None) [0x1f, 0x8b] ?r = Inr (resp', b)" by blast
  have "header_wf (RespHeader ?r)" by (simp add: header_wf_def)
  from decodeResponse_consistent [OF d this] c d show ?thesis
    by (auto simp: known_coding_def decompressor_def header_index_def)
qed

lemma low_nibble_8: "(a :: byte) AND 0x0f = 0x08 \<longleftrightarrow> unat a mod 16 = 8"
proof -
  have "(0x0f :: byte) = mask 4" by (simp add: mask_eq_exp_minus_1)
  then have t: "a AND 0x0f = take_bit 4 a" by (simp only: take_bit_eq_mask)
  have u: "unat (a AND 0x0f) = unat a mod 16" unfolding t unsigned_take_bit_eq by (simp add: take_bit_eq_mod)
  have "a AND 0x0f = 0x08 \<longleftrightarrow> unat (a AND 0x0f) = unat (0x08 :: byte)" by (simp only: word_eq_iff_unsigned)
  then show ?thesis unfolding u by simp
qed
lemma big_endian_16: "unat (push_bit 8 (ucast (a :: byte) :: 16 word) OR ucast (b :: byte)) = unat a * 256 + unat b"
proof -
  have ub: "unat x < 256" for x :: byte using unsigned_less [of x, where 'a = nat] by simp
  have ua: "unat (ucast x :: 16 word) = unat x" for x :: byte
    using ub [of x] by (simp add: unsigned_ucast_eq take_bit_eq_mod)
  have p: "unat (push_bit 8 (ucast a :: 16 word)) = unat a * 256"
    using ub [of a] by (simp add: push_bit_eq_mult ua unat_word_ariths)
  have "(push_bit 8 (ucast a :: 16 word)) AND ucast b = 0"
    by (auto simp: bit_eq_iff bit_simps dest: bit_imp_le_length)
  then have "(push_bit 8 (ucast a :: 16 word)) OR ucast b = push_bit 8 (ucast a :: 16 word) + ucast b"
    by (rule disjunctive_add_eq_or [symmetric])
  then have "unat (push_bit 8 (ucast a :: 16 word) OR ucast b) = (unat a * 256 + unat b) mod 2 ^ 16"
    by (simp only: unat_word_ariths p ua) simp
  then show ?thesis using ub [of a] ub [of b] by simp
qed
text \<open>The two-byte test for a zlib header is the one of RFC 1950: compression method 8 and a header that is a
  multiple of 31, with nothing lost in the 16-bit arithmetic.\<close>

theorem looksLikeZlib_rfc1950:
  "looksLikeZlib peeked \<longleftrightarrow>
     (\<exists>cmf flg rest. peeked = cmf # flg # rest \<and> unat cmf mod 16 = 8 \<and> (unat cmf * 256 + unat flg) mod 31 = 0)"
proof (cases "length peeked < 2")
  case True
  then show ?thesis by (auto simp: looksLikeZlib_def)
next
  case False
  then obtain a b rest where p: "peeked = a # b # rest"
    by (cases peeked; cases "tl peeked") auto
  have "w mod 31 = 0 \<longleftrightarrow> unat w mod 31 = 0" for w :: "16 word"
    by (simp add: word_eq_iff_unsigned [where 'a = nat] unat_mod)
  then show ?thesis using low_nibble_8 [of a] big_endian_16 [of a b] by (simp add: looksLikeZlib_def p)
qed

section \<open>Closing\<close>

lemma close_all_spec:
  "close_all close cs firstErr closed =
     (if firstErr \<noteq> None then firstErr else Option.bind (List.find (\<lambda>c. close c \<noteq> None) cs) close, closed @ cs)"
  by (induction cs arbitrary: firstErr closed) (auto split: option.split)

text \<open>Closing a decoded body closes the decoder and then the connection's body, each once and in that order,
  even when an earlier one fails, and reports the first failure.\<close>

theorem decompressBody_Close_complete:
  "decompressBody_Close close b = (Option.bind (List.find (\<lambda>c. close c \<noteq> None) (closers b)) close, closers b)
   \<and> (decompressor opened peeked s = Inr (Some b) \<longrightarrow> CloseBody \<in> set (snd (decompressBody_Close close b)))"
proof
  show *: "decompressBody_Close close b = (Option.bind (List.find (\<lambda>c. close c \<noteq> None) (closers b)) close, closers b)"
    by (simp add: decompressBody_Close_def close_all_spec)
  show "decompressor opened peeked s = Inr (Some b) \<longrightarrow> CloseBody \<in> set (snd (decompressBody_Close close b))"
    using decompressor_closes_body [of opened peeked s b] by (simp add: *)
qed

theorem decompressBody_Close_complete_witness:
  "CloseBody \<in> set (snd (decompressBody_Close (\<lambda>c. if c = CloseCodec Gzip then Some EOF else None)
     \<lparr>codec_of = Gzip, closers = [CloseCodec Gzip, CloseBody]\<rparr>))"
  using decompressBody_Close_complete [of "\<lambda>c. if c = CloseCodec Gzip then Some EOF else None"
      "\<lparr>codec_of = Gzip, closers = [CloseCodec Gzip, CloseBody]\<rparr>" "\<lambda>_. None" "[]" "''gzip''"]
  by (simp add: decompressor_def)

end
