(* ===== verification/Socks_Server.thy ===== *)
theory Socks_Server
  imports Connection Go_Net
begin

text \<open>
  The client-facing SOCKS5 negotiation of \<open>internal/proxy/socks5.go\<close>: greeting, method
  selection, CONNECT request and reply (RFC 1928), up to the \<open>host:port\<close> handed to the
  interceptor.
\<close>

section \<open>The code\<close>

definition socks5Version :: byte where "socks5Version = 0x05"
definition socks5NoAuth :: byte where "socks5NoAuth = 0x00"
definition socks5CmdConn :: byte where "socks5CmdConn = 0x01"
definition socks5ATYPv4 :: byte where "socks5ATYPv4 = 0x01"
definition socks5ATYPHost :: byte where "socks5ATYPHost = 0x03"
definition socks5ATYPv6 :: byte where "socks5ATYPv6 = 0x04"
definition socks5ReplyOK :: byte where "socks5ReplyOK = 0x00"
definition socks5ReplyCmd :: byte where "socks5ReplyCmd = 0x07"
definition socks5ReplyATYP :: byte where "socks5ReplyATYP = 0x08"

lemmas socks5_consts = socks5Version_def socks5NoAuth_def socks5CmdConn_def socks5ATYPv4_def
  socks5ATYPHost_def socks5ATYPv6_def socks5ReplyOK_def socks5ReplyCmd_def socks5ReplyATYP_def

definition socks5_reply :: "byte \<Rightarrow> bytes" where
  "socks5_reply status = [socks5Version, status, 0x00, socks5ATYPv4, 0, 0, 0, 0, 0, 0]"

definition writeSOCKS5Reply :: "byte \<Rightarrow> unit io" where
  "writeSOCKS5Reply status = io_write (socks5_reply status)"

definition readSOCKS5Address :: "byte \<Rightarrow> string io" where
  "readSOCKS5Address atyp =
     (if atyp = socks5ATYPv4 then
        io_bind (io_wrap ''read IPv4 address'' (io_read_full 4)) (\<lambda>buf. io_return (IP_String buf))
      else if atyp = socks5ATYPv6 then
        io_bind (io_wrap ''read IPv6 address'' (io_read_full 16)) (\<lambda>buf. io_return (IP_String buf))
      else if atyp = socks5ATYPHost then
        io_bind (io_wrap ''read host length'' io_read_byte) (\<lambda>len.
        io_bind (io_wrap ''read host'' (io_read_full (unat len))) (\<lambda>buf.
        io_return (string_of buf)))
      else io_fail (Errorf (''unsupported address type 0x'' @ hex2 atyp)))"

text \<open>\<open>binary.BigEndian.Uint16\<close> of a two-byte buffer, and \<open>PutUint16\<close>.\<close>

definition BigEndian_Uint16 :: "bytes \<Rightarrow> nat" where
  "BigEndian_Uint16 b = 256 * unat (b ! 0) + unat (b ! 1)"

definition socks5Negotiate :: "string io" where
  "socks5Negotiate =
     io_bind (io_wrap ''read version'' io_read_byte) (\<lambda>ver.
     if ver \<noteq> socks5Version then io_fail (Errorf (''unexpected version 0x'' @ hex2 ver)) else
     io_bind (io_wrap ''read method count'' io_read_byte) (\<lambda>nMethods.
     io_bind (io_wrap ''discard methods'' (io_discard (unat nMethods))) (\<lambda>_.
     io_bind (io_wrap ''write method selection'' (io_write [socks5Version, socks5NoAuth])) (\<lambda>_.
     io_bind (io_wrap ''read request header'' (io_read_full 4)) (\<lambda>head.
     if head ! 0 \<noteq> socks5Version then io_fail (Errorf (''bad request version 0x'' @ hex2 (head ! 0)))
     else if head ! 1 \<noteq> socks5CmdConn then
       io_on_error (io_fail (Errorf (''unsupported command 0x'' @ hex2 (head ! 1))))
         (writeSOCKS5Reply socks5ReplyCmd)
     else
     io_bind (io_on_error (readSOCKS5Address (head ! 3)) (writeSOCKS5Reply socks5ReplyATYP)) (\<lambda>host.
     io_bind (io_wrap ''read port'' (io_read_full 2)) (\<lambda>portBuf.
     io_bind (io_wrap ''write reply'' (writeSOCKS5Reply socks5ReplyOK)) (\<lambda>_.
     io_return (JoinHostPort host (itoa (BigEndian_Uint16 portBuf)))))))))))"

section \<open>The protocol messages\<close>

text \<open>The destination of a CONNECT request, its wire form and the host text it stands for.\<close>

datatype destination = DestV4 bytes | DestV6 bytes | DestHost string

fun dest_ok :: "destination \<Rightarrow> bool" where
  "dest_ok (DestV4 ip) = (length ip = 4)"
| "dest_ok (DestV6 ip) = (length ip = 16)"
| "dest_ok (DestHost h) = (length h \<le> 255)"

fun dest_bytes :: "destination \<Rightarrow> bytes" where
  "dest_bytes (DestV4 ip) = socks5ATYPv4 # ip"
| "dest_bytes (DestV6 ip) = socks5ATYPv6 # ip"
| "dest_bytes (DestHost h) = socks5ATYPHost # word_of_nat (length h) # bytes_of h"

fun dest_text :: "destination \<Rightarrow> string" where
  "dest_text (DestV4 ip) = IP_String ip"
| "dest_text (DestV6 ip) = IP_String ip"
| "dest_text (DestHost h) = h"

definition greeting_bytes :: "bytes \<Rightarrow> bytes" where
  "greeting_bytes methods = socks5Version # word_of_nat (length methods) # methods"

definition port_bytes :: "nat \<Rightarrow> bytes" where
  "port_bytes port = [word_of_nat (port div 256), word_of_nat (port mod 256)]"

definition connect_bytes :: "byte \<Rightarrow> destination \<Rightarrow> nat \<Rightarrow> bytes" where
  "connect_bytes rsv dest port =
     [socks5Version, socks5CmdConn, rsv] @ dest_bytes dest @ port_bytes port"

lemma length_port_bytes [simp]: "length (port_bytes port) = 2"
  by (simp add: port_bytes_def)

lemma BigEndian_port_bytes [simp]:
  "port < 65536 \<Longrightarrow> BigEndian_Uint16 (port_bytes port) = port"
  by (simp add: BigEndian_Uint16_def port_bytes_def unat_of_nat less_mult_imp_div_less)

lemma BigEndian_bound: "length b = 2 \<Longrightarrow> BigEndian_Uint16 b < 65536"
proof -
  have "unat (x :: byte) < 256" for x using unsigned_less [of x, where 'a = nat] by simp
  from this [of "b ! 0"] this [of "b ! 1"] show ?thesis by (simp add: BigEndian_Uint16_def)
qed

lemma port_bytes_BigEndian: "length b = 2 \<Longrightarrow> port_bytes (BigEndian_Uint16 b) = b"
proof -
  assume "length b = 2"
  then obtain x y where b: "b = [x, y]" by (auto simp: numeral_2_eq_2 length_Suc_conv)
  have "unat (z :: byte) < 256" for z using unsigned_less [of z, where 'a = nat] by simp
  from this [of y] show ?thesis
    by (simp add: b port_bytes_def BigEndian_Uint16_def)
qed

section \<open>Negotiation against the protocol\<close>

lemma readSOCKS5Address_reads:
  assumes "dest_ok d" "rx c = tl (dest_bytes d) @ rest"
  shows "readSOCKS5Address (hd (dest_bytes d)) c = (Inr (dest_text d), c\<lparr>rx := rest\<rparr>)"
proof (cases d)
  case (DestHost h)
  have "unat (word_of_nat (length h) :: byte) = length h"
    using assms(1) DestHost by (simp add: unat_of_nat)
  with assms DestHost show ?thesis
    by (simp add: readSOCKS5Address_def socks5_consts io_simps io_return_def)
qed (use assms in \<open>simp_all add: readSOCKS5Address_def socks5_consts io_simps io_return_def\<close>)

lemma readSOCKS5Address_InrD:
  assumes "readSOCKS5Address atyp c = (Inr host, c')"
  shows "\<exists>d. dest_ok d \<and> host = dest_text d \<and> atyp # rx c = dest_bytes d @ rx c' \<and> c' = c\<lparr>rx := rx c'\<rparr>"
proof -
  have u: "unat (b :: byte) < 256" for b using unsigned_less [of b, where 'a = nat] by simp
  consider "atyp = socks5ATYPv4" | "atyp \<noteq> socks5ATYPv4" "atyp = socks5ATYPv6"
    | "atyp \<noteq> socks5ATYPv4" "atyp \<noteq> socks5ATYPv6" "atyp = socks5ATYPHost"
    using assms by (fastforce simp: readSOCKS5Address_def split: if_splits)
  then show ?thesis
  proof cases
    case 1
    with assms obtain buf where "io_read_full 4 c = (Inr buf, c')" "host = IP_String buf"
      by (auto simp: readSOCKS5Address_def elim!: io_bind_InrE dest!: io_wrap_InrD io_return_InrD)
    with 1 show ?thesis by (auto dest!: io_read_full_InrD intro!: exI [of _ "DestV4 buf"])
  next
    case 2
    with assms obtain buf where "io_read_full 16 c = (Inr buf, c')" "host = IP_String buf"
      by (auto simp: readSOCKS5Address_def elim!: io_bind_InrE dest!: io_wrap_InrD io_return_InrD)
    with 2 show ?thesis by (auto dest!: io_read_full_InrD intro!: exI [of _ "DestV6 buf"])
  next
    case 3
    with assms obtain len c1 buf where r: "io_read_byte c = (Inr len, c1)"
      "io_read_full (unat len) c1 = (Inr buf, c')" "host = string_of buf"
      by (auto simp: readSOCKS5Address_def elim!: io_bind_InrE dest!: io_wrap_InrD io_return_InrD)
    note r1 = io_read_byte_InrD [OF r(1)] and r2 = io_read_full_InrD [OF r(2)]
    have "word_of_nat (length (string_of buf)) = len" using r2 by simp
    moreover have "length (string_of buf) \<le> 255" using r2 u [of len] by simp
    moreover have "c' = c\<lparr>rx := rx c'\<rparr>" using r1 r2 by (metis conn.update_convs(1) conn.surjective)
    ultimately show ?thesis using 3 r1 r2 r(3)
      by (intro exI [of _ "DestHost (string_of buf)"]) simp
  qed
qed

lemma negotiate_accepts:
  assumes "length methods \<le> 255" "dest_ok dest" "port < 65536"
    and "rx c = greeting_bytes methods @ connect_bytes rsv dest port @ stream"
    and "writes_left c = None"
  shows "socks5Negotiate c =
    (Inr (JoinHostPort (dest_text dest) (itoa port)),
     c\<lparr>rx := stream, tx := tx c @ [socks5Version, socks5NoAuth] @ socks5_reply socks5ReplyOK\<rparr>)"
proof -
  obtain t r where d: "dest_bytes dest = t # r" by (cases dest) auto
  have len: "unat (word_of_nat (length methods) :: byte) = length methods"
    using assms(1) by (simp add: unat_of_nat)
  have addr: "readSOCKS5Address t c1 = (Inr (dest_text dest), c1\<lparr>rx := port_bytes port @ stream\<rparr>)"
    if "rx c1 = r @ port_bytes port @ stream" for c1
    using readSOCKS5Address_reads [OF assms(2), of c1 "port_bytes port @ stream"] that d by simp
  have hd: "io_read_full 4 c1 = (Inr [socks5Version, socks5CmdConn, rsv, t], c1\<lparr>rx := r @ port_bytes port @ stream\<rparr>)"
    if "rx c1 = [socks5Version, socks5CmdConn, rsv, t] @ r @ port_bytes port @ stream" for c1
    using that by (simp add: io_simps)
  show ?thesis
    using assms(3-5)
    by (simp add: socks5Negotiate_def greeting_bytes_def connect_bytes_def d len hd addr
        io_simps io_return_def writeSOCKS5Reply_def)
qed

text \<open>On every well-formed SOCKS5 CONNECT exchange the negotiation returns the requested
  \<open>host:port\<close>, answers with the method selection and the success reply, and leaves the bytes
  behind the request, the start of the client's TLS stream, unread.\<close>

theorem socks5Negotiate_accepts:
  assumes "length methods \<le> 255" "dest_ok dest" "port < 65536"
    and "rx c = greeting_bytes methods @ connect_bytes rsv dest port @ stream"
    and "writes_left c = None"
  shows "socks5Negotiate c =
    (Inr (JoinHostPort (dest_text dest) (itoa port)),
     c\<lparr>rx := stream, tx := tx c @ [socks5Version, socks5NoAuth] @ socks5_reply socks5ReplyOK\<rparr>)"
  using assms by (rule negotiate_accepts)

theorem socks5Negotiate_accepts_witness:
  "socks5Negotiate \<lparr>rx = greeting_bytes [0, 2] @ connect_bytes 0 (DestHost ''example.com'') 443 @ [0x16, 3],
      rx_end = EOF, tx = [], writes_left = None\<rparr> =
    (Inr ''example.com:443'',
     \<lparr>rx = [0x16, 3], rx_end = EOF, tx = [5, 0, 5, 0, 0, 1, 0, 0, 0, 0, 0, 0], writes_left = None\<rparr>)"
proof -
  have "JoinHostPort (dest_text (DestHost ''example.com'')) (itoa 443) = ''example.com:443''"
    by code_simp
  then show ?thesis
    by (subst socks5Negotiate_accepts [where methods = "[0, 2]" and rsv = 0 and port = 443
          and dest = "DestHost ''example.com''" and stream = "[0x16, 3]"])
       (simp_all add: socks5_reply_def socks5_consts)
qed

lemma negotiate_sound:
  assumes "socks5Negotiate c = (Inr target, c')"
  shows "\<exists>methods dest rsv port. length methods \<le> 255 \<and> dest_ok dest \<and> port < 65536
     \<and> rx c = greeting_bytes methods @ connect_bytes rsv dest port @ rx c'
     \<and> target = JoinHostPort (dest_text dest) (itoa port)
     \<and> tx c' = tx c @ [socks5Version, socks5NoAuth] @ socks5_reply socks5ReplyOK"
proof -
  from assms obtain nm c1 c2 u c3 c4 u4 head c5 host c6 pb c7 u7 where
    1: "io_read_byte c = (Inr socks5Version, c1)" and 2: "io_read_byte c1 = (Inr nm, c2)"
    and 3: "io_discard (unat nm) c2 = (Inr u, c3)"
    and 4: "io_write [socks5Version, socks5NoAuth] c3 = (Inr u4, c4)"
    and 5: "io_read_full 4 c4 = (Inr head, c5)" "head ! 0 = socks5Version" "head ! 1 = socks5CmdConn"
    and 6: "readSOCKS5Address (head ! 3) c5 = (Inr host, c6)"
    and 7: "io_read_full 2 c6 = (Inr pb, c7)"
    and 8: "io_write (socks5_reply socks5ReplyOK) c7 = (Inr u7, c')"
    and t: "target = JoinHostPort host (itoa (BigEndian_Uint16 pb))"
    unfolding socks5Negotiate_def writeSOCKS5Reply_def
    by (elim io_bind_InrE) (auto split: if_splits elim!: io_bind_InrE
        dest!: io_wrap_InrD io_on_error_InrD io_return_InrD)
  from io_discard_InrD [OF 3] obtain ms where ms: "rx c2 = ms @ rx c3" "length ms = unat nm"
    "c3 = c2\<lparr>rx := rx c3\<rparr>" by blast
  from readSOCKS5Address_InrD [OF 6] obtain d where d: "dest_ok d" "host = dest_text d"
    "head ! 3 # rx c5 = dest_bytes d @ rx c6" "c6 = c5\<lparr>rx := rx c6\<rparr>" by blast
  note r = io_read_byte_InrD [OF 1] io_read_byte_InrD [OF 2] io_read_full_InrD [OF 5(1)]
    io_read_full_InrD [OF 7] io_write_InrD [OF 4] io_write_InrD [OF 8]
  from r(3) have "length head = 4" by simp
  then obtain x y z w where h: "head = [x, y, z, w]"
    by (auto simp: numeral_eq_Suc length_Suc_conv)
  have nm: "word_of_nat (length ms) = nm" using ms(2) by simp
  have "unat nm < 256" using unsigned_less [of nm, where 'a = nat] by simp
  then have len: "length ms \<le> 255" using ms(2) by simp
  have pb: "port_bytes (BigEndian_Uint16 pb) = pb" "BigEndian_Uint16 pb < 65536"
    using r(4) port_bytes_BigEndian BigEndian_bound by auto
  have rx: "rx c = greeting_bytes ms @ connect_bytes z d (BigEndian_Uint16 pb) @ rx c'"
    using r ms d(3) nm pb 5(2,3) h
    by (simp add: greeting_bytes_def connect_bytes_def)
  have "tx c1 = tx c" "tx c2 = tx c1" "tx c3 = tx c2" "tx c5 = tx c4" "tx c6 = tx c5" "tx c7 = tx c6"
    using r ms(3) d(4) by (metis conn.select_convs(3) conn.surjective conn.update_convs(1))+
  then have "tx c' = tx c @ [socks5Version, socks5NoAuth] @ socks5_reply socks5ReplyOK"
    using r(5,6) by simp
  with rx t d len pb show ?thesis by blast
qed

text \<open>C13: the negotiation returns a target only for a well-formed exchange: the bytes it consumed are a
  greeting and a CONNECT request for that target, it consumed nothing else, and it wrote the method
  selection and the success reply.\<close>

theorem socks5Negotiate_sound:
  assumes "socks5Negotiate c = (Inr target, c')"
  shows "\<exists>methods dest rsv port. length methods \<le> 255 \<and> dest_ok dest \<and> port < 65536
     \<and> rx c = greeting_bytes methods @ connect_bytes rsv dest port @ rx c'
     \<and> target = JoinHostPort (dest_text dest) (itoa port)
     \<and> tx c' = tx c @ [socks5Version, socks5NoAuth] @ socks5_reply socks5ReplyOK"
  using assms by (rule negotiate_sound)

theorem socks5Negotiate_sound_witness:
  "\<exists>c c' target. socks5Negotiate c = (Inr target, c') \<and> target = ''127.0.0.1:80'' \<and>
     (\<exists>methods dest rsv port. rx c = greeting_bytes methods @ connect_bytes rsv dest port @ rx c')"
proof -
  let ?c = "\<lparr>rx = [5, 1, 0, 5, 1, 0, 1, 127, 0, 0, 1, 0, 80], rx_end = EOF, tx = [], writes_left = None\<rparr>"
  have "socks5Negotiate ?c = (Inr ''127.0.0.1:80'',
     \<lparr>rx = [], rx_end = EOF, tx = [5, 0, 5, 0, 0, 1, 0, 0, 0, 0, 0, 0], writes_left = None\<rparr>)"
    by code_simp
  with socks5Negotiate_sound [OF this] show ?thesis by blast
qed

lemma silent_readSOCKS5Address: "silent (readSOCKS5Address atyp)"
  unfolding readSOCKS5Address_def by (intro silent_If silent_bind silent_wrap silent_primitives)

text \<open>What the negotiation may have written when it fails.\<close>

definition fails_writing :: "bytes set \<Rightarrow> 'a io \<Rightarrow> bool" where
  "fails_writing S m \<longleftrightarrow> (\<forall>c e c'. m c = (Inl e, c') \<longrightarrow> (\<exists>out\<in>S. tx c' = tx c @ out))"

lemma fails_writingI:
  "(\<And>c e c'. m c = (Inl e, c') \<Longrightarrow> \<exists>out\<in>S. tx c' = tx c @ out) \<Longrightarrow> fails_writing S m"
  by (simp add: fails_writing_def)

lemma fails_writingD:
  "fails_writing S m \<Longrightarrow> m c = (Inl e, c') \<Longrightarrow> \<exists>out\<in>S. tx c' = tx c @ out"
  by (simp add: fails_writing_def)

lemma fails_writing_silent: "silent m \<Longrightarrow> [] \<in> S \<Longrightarrow> fails_writing S m"
  by (auto simp: fails_writing_def dest: silentD)

lemma fails_writing_bind:
  assumes "fails_writing S m" "\<And>c a c'. m c = (Inr a, c') \<Longrightarrow> tx c' = tx c" "\<And>a. fails_writing S (f a)"
  shows "fails_writing S (io_bind m f)"
proof (rule fails_writingI)
  fix c e c' assume "io_bind m f c = (Inl e, c')"
  then show "\<exists>out\<in>S. tx c' = tx c @ out"
  proof (cases rule: io_bind_InlE)
    case 1 then show ?thesis by (rule fails_writingD [OF assms(1)])
  next
    case (2 a c1)
    from fails_writingD [OF assms(3) 2(2)] show ?thesis by (simp add: assms(2) [OF 2(1)])
  qed
qed

lemma fails_writing_bind_silent:
  assumes "silent m" "[] \<in> S" "\<And>a. fails_writing S (f a)"
  shows "fails_writing S (io_bind m f)"
  by (rule fails_writing_bind [OF fails_writing_silent [OF assms(1,2)] silentD [OF assms(1)] assms(3)])

lemma fails_writing_bind_write:
  assumes "[] \<in> S" "\<And>a. fails_writing T (f a)" "\<And>t. t \<in> T \<Longrightarrow> bs @ t \<in> S"
  shows "fails_writing S (io_bind (io_wrap p (io_write bs)) f)"
  unfolding fails_writing_def
proof (intro allI impI)
  fix c e c' assume "io_bind (io_wrap p (io_write bs)) f c = (Inl e, c')"
  then show "\<exists>out\<in>S. tx c' = tx c @ out"
  proof (cases rule: io_bind_InlE)
    case 1
    then have "tx c' = tx c"
      by (auto simp: io_wrap_def split: prod.splits sum.splits dest: io_write_InlD)
    then show ?thesis using assms(1) by auto
  next
    case (2 a c1)
    from fails_writingD [OF assms(2) 2(2)] obtain t where "t \<in> T" "tx c' = tx c1 @ t" by blast
    moreover have "tx c1 = tx c @ bs" using io_write_InrD [OF io_wrap_InrD [OF 2(1)]] by simp
    ultimately show ?thesis using assms(3) by auto
  qed
qed

lemma fails_writing_on_error:
  assumes "silent m" "{[], bs} \<subseteq> S"
  shows "fails_writing S (io_on_error m (io_write bs))"
  unfolding fails_writing_def
proof (intro allI impI)
  fix c e c' assume "io_on_error m (io_write bs) c = (Inl e, c')"
  then obtain c1 where "m c = (Inl e, c1)" "c' = snd (io_write bs c1)"
    by (auto simp: io_on_error_def split: prod.splits sum.splits)
  moreover then have "tx c1 = tx c" using silentD [OF assms(1)] by blast
  ultimately show "\<exists>out\<in>S. tx c' = tx c @ out"
    using io_write_cases [of bs c1] assms(2) by auto
qed

lemma fails_writing_If:
  "fails_writing S m \<Longrightarrow> fails_writing S n \<Longrightarrow> fails_writing S (if b then m else n)"
  by simp

definition refusals :: "bytes set" where
  "refusals = {[], socks5_reply socks5ReplyCmd, socks5_reply socks5ReplyATYP}"

text \<open>C14: a negotiation that fails never wrote a success reply: the peer saw nothing, the method
  selection, or the selection and one of the two error replies.\<close>

theorem socks5Negotiate_refuses:
  assumes "socks5Negotiate c = (Inl e, c')"
  shows "\<exists>out. tx c' = tx c @ out \<and>
     (out = [] \<or> (\<exists>r\<in>refusals. out = [socks5Version, socks5NoAuth] @ r))"
proof -
  let ?S = "insert [] ((@) [socks5Version, socks5NoAuth] ` refusals)"
  have last: "fails_writing refusals (io_bind (io_wrap p (writeSOCKS5Reply st)) (\<lambda>_. io_return v))"
    for p st and v :: string
    unfolding writeSOCKS5Reply_def
    by (rule fails_writing_bind_write [where T = "{}"]) (auto simp: refusals_def fails_writing_def io_return_def)
  have addr: "tx c' = tx c" if "io_on_error (readSOCKS5Address t) h c = (Inr a, c')" for t h c a c'
    using silentD [OF silent_readSOCKS5Address] io_on_error_InrD [OF that] by blast
  have err: "fails_writing refusals (io_on_error m (writeSOCKS5Reply st))"
    if "silent m" "st = socks5ReplyCmd \<or> st = socks5ReplyATYP" for m :: "'b io" and st
    unfolding writeSOCKS5Reply_def
    by (rule fails_writing_on_error) (use that in \<open>auto simp: refusals_def\<close>)
  have nil: "[] \<in> refusals" by (simp add: refusals_def)
  note step = fails_writing_bind_silent [OF silent_wrap [OF silent_primitives(1)]]
    fails_writing_bind_silent [OF silent_wrap [OF silent_primitives(2)]]
    fails_writing_bind_silent [OF silent_wrap [OF silent_primitives(3)]]
  have request: "fails_writing refusals
     (io_bind (io_on_error (readSOCKS5Address t) (writeSOCKS5Reply socks5ReplyATYP)) (\<lambda>host.
      io_bind (io_wrap ''read port'' (io_read_full 2)) (\<lambda>portBuf.
      io_bind (io_wrap ''write reply'' (writeSOCKS5Reply socks5ReplyOK)) (\<lambda>_.
      io_return (JoinHostPort host (itoa (BigEndian_Uint16 portBuf)))))))" for t
    by (intro fails_writing_bind [OF err addr] step nil last silent_readSOCKS5Address) simp
  have "fails_writing ?S socks5Negotiate"
    unfolding socks5Negotiate_def
    by (intro step fails_writing_If fails_writing_bind_write [where T = refusals] fails_writing_silent [OF silent_primitives(5)]
          err disjI1 refl silent_primitives nil request) (auto simp: refusals_def)
  then show ?thesis using assms by (fastforce simp: fails_writing_def)
qed

theorem socks5Negotiate_refuses_witness:
  "\<exists>c e c'. socks5Negotiate c = (Inl e, c') \<and> tx c' \<noteq> [] \<and>
     (\<exists>out. tx c' = tx c @ out \<and> (out = [] \<or> (\<exists>r\<in>refusals. out = [socks5Version, socks5NoAuth] @ r)))"
proof -
  let ?c = "\<lparr>rx = [5, 1, 0, 5, 2, 0, 1], rx_end = EOF, tx = [], writes_left = None\<rparr>"
  have "socks5Negotiate ?c = (Inl (Errorf ''unsupported command 0x02''),
     \<lparr>rx = [], rx_end = EOF, tx = [5, 0, 5, 7, 0, 1, 0, 0, 0, 0, 0, 0], writes_left = None\<rparr>)"
    by code_simp
  from socks5Negotiate_refuses [OF this] this show ?thesis by (intro exI conjI) auto
qed

end
