(* ===== verification/Host_Match.thy ===== *)
theory Host_Match
  imports Go_Net
begin

text \<open>
  Which hosts bypass the upstream proxy and which bypass interception: the pattern loops of
  \<open>upstream/dialer.go\<close> and \<open>mitm/mitm.go\<close>, the splitting of the command-line lists
  (\<open>splitBypass\<close> of \<open>cmd/doppel/main.go\<close>), and the host-name helpers the packages use
  (\<open>splitHostPort\<close>, \<open>splitHost\<close>, \<open>normalizeHost\<close>).
\<close>

section \<open>The code\<close>

definition splitHostPort :: "string \<Rightarrow> string \<times> string" where
  "splitHostPort host = (case SplitHostPort host of Inr (h, p) \<Rightarrow> (h, p) | Inl _ \<Rightarrow> (host, ''443''))"

definition splitHost :: "string \<Rightarrow> string \<times> string" where
  "splitHost host = (case SplitHostPort host of Inr (h, p) \<Rightarrow> (h, p) | Inl _ \<Rightarrow> (host, ''443''))"

definition normalizeHost :: "string \<Rightarrow> string" where
  "normalizeHost host =
     ToLower (case SplitHostPort host of Inr (h, _) \<Rightarrow> h | Inl _ \<Rightarrow> host)"

text \<open>\<open>Dialer.matchesBypass\<close>: the list is \<open>d.BypassList\<close>.\<close>

fun matchesBypass :: "string list \<Rightarrow> string \<Rightarrow> bool" where
  "matchesBypass [] host = False"
| "matchesBypass (pattern # rest) host =
     (let pattern = TrimSpace pattern
      in if pattern = [] then matchesBypass rest host
         else if pattern = ''<local>'' then
           (if host = ''127.0.0.1'' \<or> host = ''::1'' \<or> host = ''localhost'' then True
            else matchesBypass rest host)
         else if HasPrefix pattern ''.'' then
           (let suffix = ToLower pattern; h = ToLower host
            in if h = tl suffix \<or> HasSuffix h suffix then True else matchesBypass rest host)
         else if EqualFold host pattern then True
         else matchesBypass rest host)"

text \<open>\<open>Interceptor.MatchesPassthrough\<close>: the list is \<open>ic.PassthroughList\<close>.\<close>

fun passthrough_loop :: "string list \<Rightarrow> string \<Rightarrow> bool" where
  "passthrough_loop [] hostname = False"
| "passthrough_loop (pattern # rest) hostname =
     (let pattern = TrimSpace pattern
      in if pattern = [] then passthrough_loop rest hostname
         else if pattern = ''<local>'' then
           (if hostname = ''127.0.0.1'' \<or> hostname = ''::1'' \<or> hostname = ''localhost'' then True
            else passthrough_loop rest hostname)
         else if HasPrefix pattern ''.'' then
           (let suffix = ToLower pattern; h = ToLower hostname
            in if h = tl suffix \<or> HasSuffix h suffix then True else passthrough_loop rest hostname)
         else if EqualFold hostname pattern then True
         else passthrough_loop rest hostname)"

definition MatchesPassthrough :: "string list \<Rightarrow> string \<Rightarrow> bool" where
  "MatchesPassthrough passthroughList host =
     (let hostname = (case SplitHostPort host of Inl _ \<Rightarrow> host | Inr (h, _) \<Rightarrow> h)
      in passthrough_loop passthroughList hostname)"

definition splitBypass :: "string \<Rightarrow> string list" where
  "splitBypass list =
     (if list = [] then []
      else filter (\<lambda>p. p \<noteq> []) (map TrimSpace (Split list (CHR '',''))))"

section \<open>What a pattern list means\<close>

text \<open>A trimmed pattern covers a host, as the documentation of \<open>BypassList\<close> says it.\<close>

definition covers :: "string \<Rightarrow> string \<Rightarrow> bool" where
  "covers pattern host \<longleftrightarrow>
     (if pattern = [] then False
      else if pattern = ''<local>'' then host \<in> {''127.0.0.1'', ''::1'', ''localhost''}
      else if hd pattern = CHR ''.''
      then EqualFold host (tl pattern) \<or> (\<exists>sub. EqualFold host (sub @ pattern))
      else EqualFold host pattern)"

lemma covers_Nil [simp]: "\<not> covers [] host"
  by (simp add: covers_def)

text \<open>
  The contract of a pattern loop: it visits the trimmed patterns from the left and stops at the
  first one that covers the host.
\<close>

locale pattern_loop =
  fixes matches :: "string list \<Rightarrow> string \<Rightarrow> bool"
  assumes matches_Nil: "\<not> matches [] host"
    and matches_Cons: "matches (p # ps) host \<longleftrightarrow> covers (TrimSpace p) host \<or> matches ps host"
begin

lemma matches_iff: "matches ps host \<longleftrightarrow> (\<exists>p\<in>set ps. covers (TrimSpace p) host)"
  by (induction ps) (auto simp: matches_Nil matches_Cons)

lemma matches_append: "matches (ps @ qs) host \<longleftrightarrow> matches ps host \<or> matches qs host"
  by (auto simp: matches_iff)

lemma matches_clean: "matches (filter (\<lambda>p. p \<noteq> []) (map TrimSpace ps)) host \<longleftrightarrow> matches ps host"
proof -
  have "covers (TrimSpace p) host \<Longrightarrow> TrimSpace p \<noteq> []" for p
    by (metis covers_Nil)
  then show ?thesis by (fastforce simp: matches_iff)
qed

lemma matches_split:
  "matches (splitBypass flag) host \<longleftrightarrow> (\<exists>p\<in>set (Split flag (CHR '','')). covers (TrimSpace p) host)"
proof (cases "flag = []")
  case True
  then show ?thesis by (simp add: splitBypass_def matches_Nil)
next
  case False
  have "matches (splitBypass flag) host \<longleftrightarrow> matches (Split flag (CHR '','')) host"
    unfolding splitBypass_def if_not_P [OF False] by (rule matches_clean)
  then show ?thesis by (simp only: matches_iff)
qed

end

lemma HasSuffix_fold:
  "HasSuffix (ToLower host) (ToLower p) \<longleftrightarrow> (\<exists>sub. EqualFold host (sub @ p))"
proof
  assume "HasSuffix (ToLower host) (ToLower p)"
  then obtain r where r: "ToLower host = r @ ToLower p" by (auto simp: HasSuffix_iff)
  then have "ToLower r @ ToLower p = r @ ToLower p"
    by (metis ToLower_append ToLower_idem)
  with r have "EqualFold host (r @ p)" by (simp add: EqualFold_def ToLower_append)
  then show "\<exists>sub. EqualFold host (sub @ p)" ..
next
  assume "\<exists>sub. EqualFold host (sub @ p)"
  then show "HasSuffix (ToLower host) (ToLower p)"
    by (auto simp: HasSuffix_iff EqualFold_def ToLower_append)
qed

lemma dot_pattern:
  assumes "HasPrefix p ''.''"
  shows "ToLower host = tl (ToLower p) \<longleftrightarrow> EqualFold host (tl p)" "hd p = CHR ''.''"
  using assms by (auto simp: HasPrefix_iff EqualFold_def ToLower_Cons)

lemma HasPrefix_dot: "HasPrefix p ''.'' \<longleftrightarrow> p \<noteq> [] \<and> hd p = CHR ''.''"
  by (cases p) (auto simp: HasPrefix_Cons)

lemma pattern_step:
  "(if q = [] then k
    else if q = ''<local>'' then
      (if host = ''127.0.0.1'' \<or> host = ''::1'' \<or> host = ''localhost'' then True else k)
    else if HasPrefix q ''.'' then
      (let suffix = ToLower q; h = ToLower host
       in if h = tl suffix \<or> HasSuffix h suffix then True else k)
    else if EqualFold host q then True else k) \<longleftrightarrow> covers q host \<or> k"
proof -
  consider "q = []" | "q = ''<local>''" | "q \<noteq> []" "q \<noteq> ''<local>''" "HasPrefix q ''.''"
    | "q \<noteq> []" "q \<noteq> ''<local>''" "\<not> HasPrefix q ''.''" by blast
  then show ?thesis
  proof cases
    case 1
    then show ?thesis by simp
  next
    case 2
    then show ?thesis by (simp add: covers_def)
  next
    case 3
    then show ?thesis
      using dot_pattern(1) [OF 3(3), of host] dot_pattern(2) [OF 3(3)] HasSuffix_fold [of host q]
      by (simp add: covers_def Let_def)
  next
    case 4
    then show ?thesis using HasPrefix_dot [of q] by (simp add: covers_def)
  qed
qed

interpretation bypass: pattern_loop matchesBypass
  by unfold_locales
    (simp_all only: matchesBypass.simps Let_def pattern_step [unfolded Let_def] not_False_eq_True)

interpretation passthrough: pattern_loop passthrough_loop
  by unfold_locales
    (simp_all only: passthrough_loop.simps Let_def pattern_step [unfolded Let_def] not_False_eq_True)

text \<open>The flag's value bypasses exactly the hosts that one of its comma-separated patterns covers,
  spaces and empty entries aside.\<close>

theorem bypass_flag_meaning:
  "matchesBypass (splitBypass flag) host \<longleftrightarrow>
     (\<exists>p. p \<in> set (Split flag (CHR '','')) \<and> covers (TrimSpace p) host)"
  unfolding bypass.matches_split by blast

text \<open>C37: both packages read a pattern list the same way: interception is bypassed for a target exactly
  when the dialer would bypass the proxy for the host name of that target.\<close>

theorem passthrough_agrees_with_bypass:
  "MatchesPassthrough patterns host \<longleftrightarrow> matchesBypass patterns (fst (splitHostPort host))"
  by (simp add: MatchesPassthrough_def splitHostPort_def passthrough.matches_iff bypass.matches_iff
      split: sum.split)

text \<open>A domain pattern never reaches a host outside the domain: if \<open>.d\<close> covers a host, the host is
  \<open>d\<close> itself or what is left in front of \<open>d\<close> ends with a dot.\<close>

theorem domain_pattern_confined:
  assumes "matchesBypass [CHR ''.'' # d] host"
    and "TrimSpace (CHR ''.'' # d) = CHR ''.'' # d"
  shows "EqualFold host d \<or> (\<exists>sub. ToLower host = sub @ ''.'' @ ToLower d)"
proof -
  from assms have "covers (CHR ''.'' # d) host"
    by (simp only: bypass.matches_Cons bypass.matches_Nil simp_thms)
  then have "EqualFold host d \<or> (\<exists>sub. EqualFold host (sub @ CHR ''.'' # d))"
    by (simp add: covers_def)
  moreover have "ToLower (CHR ''.'' # d) = CHR ''.'' # ToLower d"
    by (simp add: ToLower_Cons lower_char_eq_nonletter)
  ultimately show ?thesis
    by (auto simp: EqualFold_def ToLower_append)
qed

theorem domain_pattern_confined_witness:
  "EqualFold ''api.Host.com'' ''host.com''
   \<or> (\<exists>sub. ToLower ''api.Host.com'' = sub @ ''.'' @ ToLower ''host.com'')"
proof -
  have "matchesBypass [''.host.com''] ''api.Host.com''" by code_simp
  moreover have "TrimSpace ''.host.com'' = ''.host.com''" by code_simp
  ultimately show ?thesis by (rule domain_pattern_confined)
qed

section \<open>Host names\<close>

lemma splitHost_eq: "splitHost host = splitHostPort host"
  by (simp add: splitHost_def splitHostPort_def)

lemma splitHostPort_Join:
  "plain_host h \<Longrightarrow> plain_port p \<Longrightarrow> splitHostPort (JoinHostPort h p) = (h, p)"
  by (simp add: splitHostPort_def SplitHostPort_JoinHostPort)

lemma normalizeHost_case:
  assumes "plain_host h" "plain_port p"
  shows "normalizeHost (JoinHostPort h p) = ToLower h"
  using assms by (simp add: normalizeHost_def SplitHostPort_JoinHostPort)

end
