(* ===== verification/Dialer.thy ===== *)
theory Dialer
  imports Socks_Client Host_Match Stable_Sort Profile
begin

text \<open>
  \<open>internal/upstream/clienthello.go\<close> and \<open>dialer.go\<close>: the table of ClientHello templates, the
  choice between the upstream proxy and a direct connection, the SOCKS5 dial with its deadline
  (\<open>ProxyConfig.Dial\<close>, \<open>dialSOCKS5\<close> of \<open>proxy.go\<close>) and the TLS dial on top of it.

  The operating system's dialer and the uTLS handshake are arguments. Every TCP connection that
  is opened or closed is recorded, so that the theorems can say that no error path leaks one.
\<close>

section \<open>ClientHello templates\<close>

text \<open>The uTLS templates the table names; their contents belong to that library.\<close>

datatype ClientHelloID =
    HelloChrome_Auto | HelloFirefox_Auto | HelloSafari_Auto | HelloIOS_Auto | HelloEdge_Auto
  | HelloRandomizedALPN

definition clientHelloIDs :: "(string \<times> ClientHelloID) list" where
  "clientHelloIDs =
     [(''chrome'', HelloChrome_Auto), (''firefox'', HelloFirefox_Auto), (''safari'', HelloSafari_Auto),
      (''safari-ios'', HelloIOS_Auto), (''ios'', HelloIOS_Auto), (''edge'', HelloEdge_Auto),
      (''randomized'', HelloRandomizedALPN)]"

definition ClientHelloNames :: "string list" where
  "ClientHelloNames = sort_Strings (map fst clientHelloIDs)"

definition resolveClientHello :: "string \<Rightarrow> go_error + ClientHelloID" where
  "resolveClientHello name =
     (case map_of clientHelloIDs (ToLower (TrimSpace name)) of
        None \<Rightarrow> Inl (Errorf (''upstream: unknown client_hello '' @ quote name @ '' (supported: ''
                  @ Join ClientHelloNames '', '' @ '')''))
      | Some i \<Rightarrow> Inr i)"

text \<open>\<open>validateClientHello\<close> of \<open>cmd/doppel/main.go\<close>: the check of the \<open>-tls-profile\<close> flag.\<close>

definition validateClientHello :: "string \<Rightarrow> go_error option" where
  "validateClientHello name =
     (if list_ex (\<lambda>valid. EqualFold name valid) ClientHelloNames then None
      else Some (Errorf (''unknown TLS profile '' @ quote name @ '' (supported: ''
                  @ Join ClientHelloNames '', '' @ '')'')))"

section \<open>Dialing\<close>

text \<open>
  A TCP connection with the absolute deadline set on it, in nanoseconds (\<open>None\<close>: no deadline),
  and what happened to connections while dialing.
\<close>

record tcp_conn =
  stream :: conn
  deadline :: "int option"

datatype dial_event = Dialed string | DialFailed string | Closed

type_synonym 'a dial = "(go_error + 'a) \<times> dial_event list"

text \<open>
  The environment of a dial: the clock, the context's deadline, \<open>net.Dialer.DialContext\<close> and
  whether \<open>SetDeadline\<close> fails on the connection.
\<close>

record dial_env =
  now :: int
  ctx_deadline :: "int option"
  DialContext :: "string \<Rightarrow> go_error + conn"
  SetDeadline_fails :: "go_error option"

definition defaultTimeout :: int where
  "defaultTimeout = 30 * 1000000000"

record Dialer =
  Timeout :: int
  SkipVerify :: bool
  UpstreamProxy :: "ProxyConfig option"
  BypassList :: "string list"

definition dial_deadline :: "dial_env \<Rightarrow> int \<Rightarrow> int" where
  "dial_deadline env timeout =
     (let deadline = now env + timeout
      in case ctx_deadline env of
           Some d \<Rightarrow> if d < deadline then d else deadline
         | None \<Rightarrow> deadline)"

definition dialSOCKS5 :: "dial_env \<Rightarrow> ProxyConfig \<Rightarrow> string \<Rightarrow> int \<Rightarrow> tcp_conn dial" where
  "dialSOCKS5 env p target timeout =
     (case DialContext env (Address p) of
        Inl e \<Rightarrow> (Inl (Wrapf ''dial upstream proxy'' e), [DialFailed (Address p)])
      | Inr c \<Rightarrow>
          (let deadline = dial_deadline env timeout
           in case SetDeadline_fails env of
                Some e \<Rightarrow> (Inl (Wrapf ''set proxy deadline'' e), [Dialed (Address p), Closed])
              | None \<Rightarrow>
                  (case socks5Handshake p target c of
                     (Inl e, _) \<Rightarrow> (Inl e, [Dialed (Address p), Closed])
                   | (Inr _, c') \<Rightarrow>
                       (Inr \<lparr>stream = c', deadline = Some deadline\<rparr>, [Dialed (Address p)]))))"

definition ProxyConfig_Dial ::
  "dial_env \<Rightarrow> ProxyConfig option \<Rightarrow> string \<Rightarrow> string \<Rightarrow> int \<Rightarrow> tcp_conn dial" where
  "ProxyConfig_Dial env p network target timeout =
     (case p of
        None \<Rightarrow> (Inl (Errorf ''upstream proxy is nil''), [])
      | Some p \<Rightarrow>
          if network \<noteq> ''tcp'' then
            (Inl (Errorf (''unsupported upstream proxy network '' @ quote network)), [])
          else if Scheme p \<noteq> ''socks5'' then
            (Inl (Errorf (''unsupported upstream proxy scheme '' @ quote (Scheme p))), [])
          else dialSOCKS5 env p target timeout)"

definition DialTCP :: "dial_env \<Rightarrow> Dialer \<Rightarrow> string \<Rightarrow> int \<Rightarrow> tcp_conn dial" where
  "DialTCP env d target timeout =
     (let host = (case SplitHostPort target of Inr (h, _) \<Rightarrow> h | Inl _ \<Rightarrow> target)
      in if UpstreamProxy d \<noteq> None \<and> \<not> matchesBypass (BypassList d) host
         then ProxyConfig_Dial env (UpstreamProxy d) ''tcp'' target timeout
         else case DialContext env target of
             Inl e \<Rightarrow> (Inl e, [DialFailed target])
           | Inr c \<Rightarrow> (Inr \<lparr>stream = c, deadline = None\<rparr>, [Dialed target]))"

text \<open>The \<open>utls.Config\<close> the dialer fills in, and the established connection it returns.\<close>

record tls_config =
  ServerName :: string
  InsecureSkipVerify :: bool
  NextProtos :: "string list"

record Conn =
  tls_stream :: conn
  tls_deadline :: "int option"
  conn_ALPN :: string

text \<open>
  \<open>handshake\<close> is \<open>utls.UClient(raw, cfg, helloID)\<close> followed by \<open>Handshake\<close>: it returns the
  secured stream and the negotiated protocol. \<open>clear_fails\<close> is the result of the second
  \<open>SetDeadline\<close>.
\<close>

definition DialWithALPN ::
  "dial_env \<Rightarrow> (ClientHelloID \<Rightarrow> tls_config \<Rightarrow> conn \<Rightarrow> go_error + (conn \<times> string)) \<Rightarrow> go_error option \<Rightarrow>
   Dialer \<Rightarrow> Profile \<Rightarrow> string \<Rightarrow> string list \<Rightarrow> Conn dial" where
  "DialWithALPN env handshake clear_fails d p host alpn =
     (case resolveClientHello (ClientHello p) of
        Inl e \<Rightarrow> (Inl e, [])
      | Inr helloID \<Rightarrow>
          (case splitHostPort host of (hostname, port) \<Rightarrow>
            (let timeout = (if Timeout d \<le> 0 then defaultTimeout else Timeout d);
                 target = JoinHostPort hostname port
             in case DialTCP env d target timeout of
                  (Inl e, ev) \<Rightarrow> (Inl (Wrapf (''dial '' @ host) e), ev)
                | (Inr raw, ev) \<Rightarrow>
                    (let cfg = \<lparr>ServerName = hostname, InsecureSkipVerify = SkipVerify d, NextProtos = alpn\<rparr>;
                         deadline = dial_deadline env timeout
                     in case SetDeadline_fails env of
                          Some e \<Rightarrow> (Inl (Wrapf ''set handshake deadline'' e), ev @ [Closed])
                        | None \<Rightarrow>
                            (case handshake helloID cfg (stream raw) of
                               Inl e \<Rightarrow> (Inl (Wrapf (''tls handshake with '' @ hostname) e), ev @ [Closed])
                             | Inr (s, proto) \<Rightarrow>
                                 (case clear_fails of
                                    Some e \<Rightarrow> (Inl (Wrapf ''clear handshake deadline'' e), ev @ [Closed])
                                  | None \<Rightarrow> (Inr \<lparr>tls_stream = s, tls_deadline = None, conn_ALPN = proto\<rparr>, ev)))))))"

definition Dial ::
  "dial_env \<Rightarrow> (ClientHelloID \<Rightarrow> tls_config \<Rightarrow> conn \<Rightarrow> go_error + (conn \<times> string)) \<Rightarrow> go_error option \<Rightarrow>
   Dialer \<Rightarrow> Profile \<Rightarrow> string \<Rightarrow> Conn dial" where
  "Dial env handshake clear_fails d p host =
     DialWithALPN env handshake clear_fails d p host (ALPN p)"

section \<open>Templates\<close>

lemma ClientHelloNames_eq:
  "ClientHelloNames =
     [''chrome'', ''edge'', ''firefox'', ''ios'', ''randomized'', ''safari'', ''safari-ios'']"
  by (simp add: ClientHelloNames_def clientHelloIDs_def sort_Strings_def SliceStable_def less_char_def)

lemma set_ClientHelloNames: "set ClientHelloNames = fst ` set clientHelloIDs"
  by (simp add: ClientHelloNames_def set_sort_Strings)

lemma validate_resolves:
  assumes "validateClientHello name = None"
  shows "\<exists>valid i. (valid, i) \<in> set clientHelloIDs \<and> EqualFold name valid
     \<and> resolveClientHello name = Inr i"
proof -
  from assms obtain valid where v: "valid \<in> set ClientHelloNames" "EqualFold name valid"
    by (auto simp: validateClientHello_def list_ex_iff split: if_splits)
  have canon: "ToLower (TrimSpace n) = v" if "ToLower n = v" "v \<in> set ClientHelloNames" for n v
  proof -
    have "\<not> is_space (hd v) \<and> \<not> is_space (last v) \<and> v \<noteq> []"
      using that(2) by (auto simp: ClientHelloNames_eq is_space_def)
    moreover have sp: "is_space (lower_char c) \<longleftrightarrow> is_space c" for c
      by (simp add: is_space_def of_char_lower_char)
    have "n \<noteq> [] \<Longrightarrow> hd v = lower_char (hd n) \<and> last v = lower_char (last n)" "v = [] \<longleftrightarrow> n = []"
      unfolding that(1) [symmetric] ToLower_def by (simp_all add: hd_map last_map)
    ultimately have "\<not> is_space (hd n) \<and> \<not> is_space (last n)" using sp by metis
    then have "TrimSpace n = n" by (intro TrimSpace_id) simp
    with that(1) show ?thesis by simp
  qed
  have low: "ToLower valid = valid" using v(1) by (auto simp: ClientHelloNames_eq ToLower_def lower_char_def)
  have "ToLower (TrimSpace name) = valid"
    using v low by (intro canon) (auto simp: EqualFold_def)
  moreover obtain i where i: "map_of clientHelloIDs valid = Some i"
    using v(1) unfolding set_ClientHelloNames by (metis map_of_eq_None_iff not_None_eq)
  ultimately show ?thesis using v(2) map_of_SomeD [OF i] by (auto simp: resolveClientHello_def)
qed

text \<open>A \<open>-tls-profile\<close> value that passes the command line's check names a template: the dialer
  resolves it, and to the template of the name it was matched with.\<close>

theorem validateClientHello_resolves:
  assumes "validateClientHello name = None"
  shows "\<exists>valid i. (valid, i) \<in> set clientHelloIDs \<and> EqualFold name valid
     \<and> resolveClientHello name = Inr i"
  using assms by (rule validate_resolves)

theorem validateClientHello_resolves_witness:
  "\<exists>valid i. (valid, i) \<in> set clientHelloIDs \<and> EqualFold ''Safari-iOS'' valid
     \<and> resolveClientHello ''Safari-iOS'' = Inr i"
proof -
  have "EqualFold ''Safari-iOS'' ''safari-ios''" by code_simp
  then have "validateClientHello ''Safari-iOS'' = None"
    by (simp add: validateClientHello_def ClientHelloNames_eq)
  then show ?thesis by (rule validateClientHello_resolves)
qed

section \<open>Routes\<close>

lemma dial_deadline_le:
  "dial_deadline env t \<le> now env + t" "ctx_deadline env = Some d \<Longrightarrow> dial_deadline env t \<le> d"
  by (auto simp: dial_deadline_def Let_def split: option.split)

text \<open>C18: with an upstream proxy configured, a target outside the bypass list is never reached directly:
  the only address dialed is the proxy's, whatever fails; a bypassed target, or any target without a
  proxy, is dialed at its own address.\<close>

theorem DialTCP_route:
  "DialTCP env d target timeout = (r, ev) \<Longrightarrow>
   (\<forall>a. Dialed a \<in> set ev \<or> DialFailed a \<in> set ev \<longrightarrow>
     a = (case UpstreamProxy d of
            Some p \<Rightarrow> if matchesBypass (BypassList d) (case SplitHostPort target of Inr (h, _) \<Rightarrow> h | Inl _ \<Rightarrow> target)
                      then target else Address p
          | None \<Rightarrow> target))"
  by (auto simp: DialTCP_def ProxyConfig_Dial_def dialSOCKS5_def Let_def
      split: option.splits sum.splits if_splits prod.splits)

theorem DialTCP_route_witness:
  "\<exists>r. DialTCP \<lparr>now = 0, ctx_deadline = None, DialContext = (\<lambda>_. Inl EOF), SetDeadline_fails = None\<rparr>
     \<lparr>Timeout = 0, SkipVerify = False, UpstreamProxy = Some \<lparr>Scheme = ''socks5'', Address = ''p:1080'', Auth = None\<rparr>,
      BypassList = [''<local>'']\<rparr> ''a.io:443'' 30 = (r, [DialFailed ''p:1080'']) \<and>
    (\<forall>a. DialFailed a \<in> {DialFailed ''p:1080''} \<longrightarrow> a = ''p:1080'')"
proof -
  let ?env = "\<lparr>now = 0, ctx_deadline = None, DialContext = (\<lambda>_. Inl EOF), SetDeadline_fails = None\<rparr>"
  let ?d = "\<lparr>Timeout = 0, SkipVerify = False, UpstreamProxy = Some \<lparr>Scheme = ''socks5'', Address = ''p:1080'', Auth = None\<rparr>,
      BypassList = [''<local>'']\<rparr>"
  have m: "SplitHostPort ''a.io:443'' = Inr (''a.io'', ''443'')" "matchesBypass [''<local>''] ''a.io'' = False" by code_simp+
  have r: "DialTCP ?env ?d ''a.io:443'' 30 = (Inl (Wrapf ''dial upstream proxy'' EOF), [DialFailed ''p:1080''])"
    using m by (simp add: DialTCP_def ProxyConfig_Dial_def dialSOCKS5_def)
  from DialTCP_route [OF r] m have "\<forall>a. DialFailed a \<in> {DialFailed ''p:1080''} \<longrightarrow> a = ''p:1080''" by simp
  with r show ?thesis by blast
qed

text \<open>How many of the opened connections are still open after a dial.\<close>

definition open_conns :: "dial_event list \<Rightarrow> int" where
  "open_conns ev = int (length (filter (\<lambda>e. \<exists>a. e = Dialed a) ev)) - int (length (filter ((=) Closed) ev))"

lemma open_conns_simps [simp]:
  "open_conns [] = 0" "open_conns (Dialed a # ev) = open_conns ev + 1"
  "open_conns (DialFailed a # ev) = open_conns ev" "open_conns (Closed # ev) = open_conns ev - 1"
  "open_conns (ev @ ev') = open_conns ev + open_conns ev'"
  by (simp_all add: open_conns_def)

lemma open_conns_DialTCP:
  "open_conns (snd (DialTCP env d target t)) = (case fst (DialTCP env d target t) of Inl _ \<Rightarrow> 0 | Inr _ \<Rightarrow> 1)"
  by (auto simp: DialTCP_def ProxyConfig_Dial_def dialSOCKS5_def Let_def
      split: option.splits sum.splits if_splits prod.splits)

text \<open>C19: a TLS dial never leaks a connection: it leaves one open exactly when it succeeds, and closes
  what it opened on every error path (proxy refusal, deadline, handshake).\<close>

theorem DialWithALPN_no_leak:
  "open_conns (snd (DialWithALPN env handshake clear_fails d p host alpn)) =
     (case fst (DialWithALPN env handshake clear_fails d p host alpn) of Inl _ \<Rightarrow> 0 | Inr _ \<Rightarrow> 1)"
proof -
  have "open_conns ev = (case r of Inl _ \<Rightarrow> 0 | Inr _ \<Rightarrow> 1)" if "DialTCP env d target t = (r, ev)" for target t r ev
    using open_conns_DialTCP [of env d target t] that by simp
  then show ?thesis
    by (auto simp: DialWithALPN_def Let_def split: option.splits sum.splits prod.splits)
qed

text \<open>C20: a connection the dialer hands out negotiates for the requested host: the handshake used the
  profile's template, the host without its port as server name, the given protocols and the
  verification setting, and no deadline is left on the connection.\<close>

theorem DialWithALPN_identity:
  assumes "DialWithALPN env handshake clear_fails d p host alpn = (Inr c, ev)"
  shows "\<exists>i raw. resolveClientHello (ClientHello p) = Inr i \<and>
     handshake i \<lparr>ServerName = fst (splitHostPort host), InsecureSkipVerify = SkipVerify d, NextProtos = alpn\<rparr> raw
       = Inr (tls_stream c, conn_ALPN c) \<and> tls_deadline c = None"
  using assms
  by (fastforce simp: DialWithALPN_def Let_def split: option.splits sum.splits prod.splits)

theorem DialWithALPN_identity_witness:
  "\<exists>c ev i. DialWithALPN \<lparr>now = 0, ctx_deadline = None, DialContext = (\<lambda>_. Inr \<lparr>rx = [], rx_end = EOF, tx = [], writes_left = None\<rparr>),
       SetDeadline_fails = None\<rparr> (\<lambda>i cfg s. Inr (s, hd (NextProtos cfg))) None
     \<lparr>Timeout = 0, SkipVerify = False, UpstreamProxy = None, BypassList = []\<rparr>
     \<lparr>Name = ''p'', Aliases = [], Description = [], ClientHello = ''chrome'', UserAgent = ''u'', ALPN = [''h2''],
      Headers = \<lparr>Order = [], SetHeaders = []\<rparr>, HTTP2 = None\<rparr> ''a.io'' [''h2''] = (Inr c, ev)
     \<and> resolveClientHello ''chrome'' = Inr i \<and> conn_ALPN c = ''h2'' \<and> tls_deadline c = None"
proof -
  let ?h = "\<lambda>i cfg s. Inr (s, hd (NextProtos cfg)) :: go_error + conn \<times> string"
  let ?env = "\<lparr>now = 0, ctx_deadline = None, DialContext = (\<lambda>_. Inr \<lparr>rx = [], rx_end = EOF, tx = [], writes_left = None\<rparr>),
       SetDeadline_fails = None\<rparr>"
  let ?d = "\<lparr>Timeout = 0, SkipVerify = False, UpstreamProxy = None, BypassList = []\<rparr>"
  let ?p = "\<lparr>Name = ''p'', Aliases = [], Description = [], ClientHello = ''chrome'', UserAgent = ''u'', ALPN = [''h2''],
      Headers = \<lparr>Order = [], SetHeaders = []\<rparr>, HTTP2 = None\<rparr>"
  have r: "resolveClientHello ''chrome'' = Inr HelloChrome_Auto" by code_simp
  have "\<exists>c ev. DialWithALPN ?env ?h None ?d ?p ''a.io'' [''h2''] = (Inr c, ev)"
    using r by (simp add: DialWithALPN_def DialTCP_def split: prod.split)
  then obtain c ev where c: "DialWithALPN ?env ?h None ?d ?p ''a.io'' [''h2''] = (Inr c, ev)" by blast
  from DialWithALPN_identity [OF c] have "conn_ALPN c = ''h2'' \<and> tls_deadline c = None" by auto
  with c r show ?thesis by blast
qed

text \<open>A raw tunnel through the upstream proxy keeps the deadline of the dial: \<open>DialTCP\<close> hands out a
  connection whose deadline lies at most the timeout ahead, where a direct connection has none.\<close>

theorem DialTCP_deadline:
  assumes "DialTCP env d target timeout = (Inr c, ev)"
  shows "if UpstreamProxy d \<noteq> None \<and>
            \<not> matchesBypass (BypassList d) (case SplitHostPort target of Inr (h, _) \<Rightarrow> h | Inl _ \<Rightarrow> target)
         then \<exists>t. deadline c = Some t \<and> t \<le> now env + timeout else deadline c = None"
  using assms dial_deadline_le(1) [of env timeout]
  by (auto simp: DialTCP_def ProxyConfig_Dial_def dialSOCKS5_def Let_def
      split: option.splits sum.splits if_splits prod.splits)

theorem DialTCP_deadline_witness:
  "\<exists>c ev. DialTCP \<lparr>now = 0, ctx_deadline = None, DialContext = (\<lambda>_. Inr \<lparr>rx = [5, 0, 5, 0, 0, 1, 0, 0, 0, 0, 0, 0],
       rx_end = EOF, tx = [], writes_left = None\<rparr>), SetDeadline_fails = None\<rparr>
     \<lparr>Timeout = 0, SkipVerify = False, UpstreamProxy = Some \<lparr>Scheme = ''socks5'', Address = ''p:1080'', Auth = None\<rparr>,
      BypassList = []\<rparr> ''a.io:443'' 30 = (Inr c, ev) \<and> (\<exists>t. deadline c = Some t \<and> t \<le> 30)"
proof -
  let ?c = "\<lparr>rx = [5, 0, 5, 0, 0, 1, 0, 0, 0, 0, 0, 0], rx_end = EOF, tx = [], writes_left = None\<rparr>"
  let ?env = "\<lparr>now = 0, ctx_deadline = None, DialContext = (\<lambda>_. Inr ?c), SetDeadline_fails = None\<rparr>"
  let ?p = "\<lparr>Scheme = ''socks5'', Address = ''p:1080'', Auth = None\<rparr>"
  let ?d = "\<lparr>Timeout = 0, SkipVerify = False, UpstreamProxy = Some ?p, BypassList = []\<rparr>"
  have m: "SplitHostPort ''a.io:443'' = Inr (''a.io'', ''443'')" by code_simp
  have h: "socks5Handshake ?p ''a.io:443'' ?c = (Inr (), ?c\<lparr>rx := [],
     tx := [5, 1, 0, 5, 1, 0, 3, 4, 97, 46, 105, 111, 1, 187]\<rparr>)" by code_simp
  have "\<exists>c ev. DialTCP ?env ?d ''a.io:443'' 30 = (Inr c, ev)"
    using m h by (simp add: DialTCP_def ProxyConfig_Dial_def dialSOCKS5_def)
  then obtain c ev where c: "DialTCP ?env ?d ''a.io:443'' 30 = (Inr c, ev)" by blast
  from DialTCP_deadline [OF c] m have "\<exists>t. deadline c = Some t \<and> t \<le> 30" by simp
  with c show ?thesis by blast
qed

end
