(* ===== verification/Round_Tripper.thy ===== *)
theory Round_Tripper
  imports H2_Client Decompress Dialer
begin

text \<open>
  The connection pool and the request path of \<open>internal/upstream/roundtripper.go\<close>: one pooled
  HTTP/2 connection per host, adopted, looked up, evicted and closed under the pool's mutex, and
  \<open>roundTrip\<close> with its single retry.

  Connections are \<open>h2ClientConn\<close> states of the HTTP/2 theory, named by their index in \<open>conns\<close>. A
  TCP dial, a round trip on a connection and the HTTP/1.1 exchange are arguments of the request path.
\<close>

section \<open>The pool\<close>

record rt_state =
  pool :: "(string \<times> nat) list"
  conns :: "h2ClientConn list"

definition close_conn :: "nat \<Rightarrow> rt_state \<Rightarrow> rt_state" where
  "close_conn i rt = rt\<lparr>conns := (conns rt)[i := Close (conns rt ! i)]\<rparr>"

definition cachedH2 :: "string \<Rightarrow> rt_state \<Rightarrow> nat option \<times> rt_state" where
  "cachedH2 host rt =
     (case map_of (pool rt) host of
        None \<Rightarrow> (None, rt)
      | Some i \<Rightarrow>
          if \<not> CanTakeNewRequest (conns rt ! i)
          then (None, close_conn i (rt\<lparr>pool := AList.delete host (pool rt)\<rparr>))
          else (Some i, rt))"

text \<open>\<open>adoptH2\<close>: opening the connection, and the section under the mutex.\<close>

definition open_h2 :: "framer \<Rightarrow> Profile \<Rightarrow> rt_state \<Rightarrow> (go_error + nat) \<times> rt_state" where
  "open_h2 wr p rt =
     (case newH2ClientConn wr p of
        (Inl e, c) \<Rightarrow> (Inl (Wrapf ''establish http/2 connection'' e), rt)
      | (Inr _, c) \<Rightarrow> (Inr (length (conns rt)), rt\<lparr>conns := conns rt @ [c]\<rparr>))"

definition adopt_locked :: "string \<Rightarrow> nat \<Rightarrow> rt_state \<Rightarrow> nat \<times> rt_state" where
  "adopt_locked host i rt =
     (case map_of (pool rt) host of
        Some existing \<Rightarrow>
          if CanTakeNewRequest (conns rt ! existing) then (existing, close_conn i rt)
          else (i, (close_conn existing rt)\<lparr>pool := AList.update host i (pool rt)\<rparr>)
      | None \<Rightarrow> (i, rt\<lparr>pool := AList.update host i (pool rt)\<rparr>))"

definition adoptH2 :: "framer \<Rightarrow> Profile \<Rightarrow> string \<Rightarrow> rt_state \<Rightarrow> (go_error + nat) \<times> rt_state" where
  "adoptH2 wr p host rt =
     (case open_h2 wr p rt of
        (Inl e, rt) \<Rightarrow> (Inl e, rt)
      | (Inr i, rt) \<Rightarrow> (case adopt_locked host i rt of (j, rt) \<Rightarrow> (Inr j, rt)))"

text \<open>\<open>evict\<close>: the section under the mutex hands out the connection that is closed after it.\<close>

definition evict_locked :: "string \<Rightarrow> rt_state \<Rightarrow> nat option \<times> rt_state" where
  "evict_locked host rt =
     (case map_of (pool rt) host of
        None \<Rightarrow> (None, rt)
      | Some i \<Rightarrow> (Some i, rt\<lparr>pool := AList.delete host (pool rt)\<rparr>))"

definition evict :: "string \<Rightarrow> rt_state \<Rightarrow> rt_state" where
  "evict host rt = (case evict_locked host rt of (None, rt) \<Rightarrow> rt | (Some i, rt) \<Rightarrow> close_conn i rt)"

definition RoundTripper_Close :: "rt_state \<Rightarrow> rt_state" where
  "RoundTripper_Close rt = fold (\<lambda>(host, i) rt. (close_conn i rt)\<lparr>pool := AList.delete host (pool rt)\<rparr>) (pool rt) rt"

section \<open>The request path\<close>

text \<open>
  One request's environment. The dial and its handshake are those of the dialer's theory;
  \<open>cc.RoundTrip\<close> takes the connection's state to the next; \<open>ReadResponse\<close> is \<open>http.ReadResponse\<close> on
  the stream after the request was written; \<open>rt_opened\<close> and \<open>rt_peeked\<close> belong to the decoding of the body.
\<close>

record rt_env =
  h2_RoundTrip :: "nat \<Rightarrow> h2ClientConn \<Rightarrow> (go_error + Response) \<times> h2ClientConn"
  rt_dial :: dial_env
  rt_handshake :: "ClientHelloID \<Rightarrow> tls_config \<Rightarrow> conn \<Rightarrow> go_error + (conn \<times> string)"
  rt_clear :: "go_error option"
  ReadResponse :: "conn \<Rightarrow> go_error + Response"
  rt_opened :: "codec \<Rightarrow> go_error option"
  rt_peeked :: bytes

text \<open>\<open>roundTripHTTP1\<close>: the stream afterwards, and whether the connection was closed; a response's body
  closes it later (\<open>connClosingBody\<close>).\<close>

definition roundTripHTTP1 ::
  "(conn \<Rightarrow> go_error + Response) \<Rightarrow> Conn \<Rightarrow> Request \<Rightarrow> Profile \<Rightarrow> (go_error + Response) \<times> conn \<times> bool" where
  "roundTripHTTP1 readResponse c req p =
     (case WriteRequestHTTP1 req p (tls_stream c) of
        (Inl e, s) \<Rightarrow> (Inl e, s, True)
      | (Inr _, s) \<Rightarrow>
          (case readResponse s of
             Inl e \<Rightarrow> (Inl (Wrapf ''read http/1.1 response'' e), s, True)
           | Inr resp \<Rightarrow> (Inr resp, s, False)))"

text \<open>\<open>cc.RoundTrip(req)\<close> on connection \<open>i\<close>.\<close>

definition use_h2 :: "rt_env \<Rightarrow> nat \<Rightarrow> rt_state \<Rightarrow> (go_error + Response) \<times> rt_state" where
  "use_h2 env i rt =
     (case h2_RoundTrip env i (conns rt ! i) of (r, c) \<Rightarrow> (r, rt\<lparr>conns := (conns rt)[i := c]\<rparr>))"

text \<open>The requests that were put on a connection, with what came back: on a pooled or adopted HTTP/2
  connection, or on an HTTP/1.1 connection of the request's own.\<close>

datatype attempt = OnH2 nat (outcome: "go_error + Response") | OnHttp1 (outcome: "go_error + Response")

definition fresh_attempt ::
  "rt_env \<Rightarrow> framer \<Rightarrow> Dialer \<Rightarrow> Profile \<Rightarrow> Request \<Rightarrow> rt_state \<Rightarrow> attempt list \<Rightarrow>
   (go_error + Response) \<times> rt_state \<times> attempt list" where
  "fresh_attempt env wr d p req rt tried =
     (let host = URL_Host req
      in case Dial (rt_dial env) (rt_handshake env) (rt_clear env) d p host of
           (Inl e, _) \<Rightarrow> (Inl e, rt, tried)
         | (Inr conn, _) \<Rightarrow>
             if conn_ALPN conn \<noteq> ''h2'' then
               (case roundTripHTTP1 (ReadResponse env) conn req p of (r, _, _) \<Rightarrow> (r, rt, tried @ [OnHttp1 r]))
             else (case adoptH2 wr p host rt of
                 (Inl e, rt) \<Rightarrow> (Inl e, rt, tried)
               | (Inr i, rt) \<Rightarrow>
                   (case use_h2 env i rt of
                      (Inl e, rt) \<Rightarrow> (Inl (Wrapf ''http/2 round trip'' e), evict host rt, tried @ [OnH2 i (Inl e)])
                    | (Inr resp, rt) \<Rightarrow> (Inr resp, rt, tried @ [OnH2 i (Inr resp)]))))"

definition roundTrip ::
  "rt_env \<Rightarrow> framer \<Rightarrow> Dialer \<Rightarrow> Profile \<Rightarrow> Request \<Rightarrow> rt_state \<Rightarrow> (go_error + Response) \<times> rt_state \<times> attempt list" where
  "roundTrip env wr d p req rt =
     (let host = URL_Host req
      in case cachedH2 host rt of
           (Some i, rt) \<Rightarrow>
             (case use_h2 env i rt of
                (Inr resp, rt) \<Rightarrow> (Inr resp, rt, [OnH2 i (Inr resp)])
              | (Inl e, rt) \<Rightarrow>
                  (let rt = evict host rt
                   in if Body req \<noteq> None then (Inl (Wrapf ''http/2 round trip'' e), rt, [OnH2 i (Inl e)])
                      else fresh_attempt env wr d p req rt [OnH2 i (Inl e)]))
         | (None, rt) \<Rightarrow> fresh_attempt env wr d p req rt [])"

text \<open>\<open>RoundTrip\<close>: the flag says whether the transport's body was closed because it could not be decoded.\<close>

definition RoundTrip ::
  "rt_env \<Rightarrow> framer \<Rightarrow> Dialer \<Rightarrow> Profile \<Rightarrow> Request \<Rightarrow> rt_state \<Rightarrow> (go_error + Response \<times> resp_body) \<times> rt_state \<times> bool" where
  "RoundTrip env wr d p req rt =
     (case roundTrip env wr d p req rt of
        (Inl e, rt, _) \<Rightarrow> (Inl e, rt, False)
      | (Inr resp, rt, _) \<Rightarrow>
          (case decodeResponse (rt_opened env) (rt_peeked env) resp of
             Inl e \<Rightarrow> (Inl (Wrapf ''decode response body'' e), rt, True)
           | Inr rb \<Rightarrow> (Inr rb, rt, False)))"

section \<open>Requests are not repeated\<close>

lemma fresh_attempt_tries:
  "fresh_attempt env wr d p req rt tried = (r, rt', tried') \<Longrightarrow>
     tried' = tried \<and> (\<exists>e. r = Inl e)
     \<or> (\<exists>a. tried' = tried @ [a] \<and> (r = outcome a \<or> (\<exists>e. outcome a = Inl e \<and> r = Inl (Wrapf ''http/2 round trip'' e))))"
  by (auto simp: fresh_attempt_def Let_def split: sum.splits if_splits prod.splits)

text \<open>C23: A request is put on a connection at most twice, a second time only when it carries no body at all and
  a pooled connection had failed it; a response that is returned is the one of the last attempt.\<close>

theorem roundTrip_attempts:
  assumes "roundTrip env wr d p req rt = (r, rt', tried)"
  shows "length tried \<le> 2 \<and> (Body req \<noteq> None \<longrightarrow> length tried \<le> 1)
     \<and> (\<forall>a b. tried = [a, b] \<longrightarrow> (\<exists>i e. a = OnH2 i (Inl e) \<and> map_of (pool rt) (URL_Host req) = Some i))
     \<and> (\<forall>resp. r = Inr resp \<longrightarrow> tried \<noteq> [] \<and> outcome (last tried) = Inr resp)"
proof (cases "cachedH2 (URL_Host req) rt")
  case (Pair o1 rt1)
  show ?thesis
  proof (cases o1)
    case None
    with Pair assms have "fresh_attempt env wr d p req rt1 [] = (r, rt', tried)"
      by (simp add: roundTrip_def Let_def)
    from fresh_attempt_tries [OF this] show ?thesis by auto
  next
    case (Some i)
    with Pair have i: "map_of (pool rt) (URL_Host req) = Some i"
      by (auto simp: cachedH2_def split: option.splits if_splits)
    obtain r1 rt2 where u: "use_h2 env i rt1 = (r1, rt2)" by force
    show ?thesis
    proof (cases r1)
      case (Inr resp)
      with Pair Some u assms show ?thesis by (auto simp: roundTrip_def Let_def)
    next
      case (Inl e)
      show ?thesis
      proof (cases "Body req = None")
        case True
        with Pair Some u Inl assms
        have "fresh_attempt env wr d p req (evict (URL_Host req) rt2) [OnH2 i (Inl e)] = (r, rt', tried)"
          by (simp add: roundTrip_def Let_def)
        from fresh_attempt_tries [OF this] True i show ?thesis by auto
      next
        case False
        with Pair Some u Inl assms show ?thesis by (auto simp: roundTrip_def Let_def)
      qed
    qed
  qed
qed

end
