(* ===== verification/H2_Invariants.thy ===== *)
theory H2_Invariants
  imports H2_Client
begin

text \<open>
  The invariants of the HTTP/2 client connection under every interleaving of callers, closers and
  the read loop: what is registered, which identifiers are in use, where a stream's bytes and
  responses come from, which callers can still return, and how much window has been given back.
\<close>

named_theorems h2_simps \<open>effect of the connection's operations on its fields\<close>

section \<open>Effects of the operations\<close>

lemma update_obj_simps [h2_simps]:
  "nextID (update_obj ob f c) = nextID c" "streams (update_obj ob f c) = streams c"
  "cc_closed (update_obj ob f c) = cc_closed c" "sent (update_obj ob f c) = sent c"
  "length (objs (update_obj ob f c)) = length (objs c)" "conn_closed (update_obj ob f c) = conn_closed c"
  "stream_of (update_obj ob f c) i = stream_of c i"
  by (simp_all add: update_obj_def stream_of_def)

lemma objs_update_obj [h2_simps]:
  "objs (update_obj ob f c) ! x = (if x = ob \<and> ob < length (objs c) then f (objs c ! x) else objs c ! x)"
  by (cases "ob < length (objs c)"; cases "x = ob") (simp_all add: update_obj_def list_update_beyond not_less)

lemma delete_stream_simps [h2_simps]:
  "nextID (delete_stream i c) = nextID c" "streams (delete_stream i c) = AList.delete i (streams c)"
  "cc_closed (delete_stream i c) = cc_closed c" "sent (delete_stream i c) = sent c"
  "objs (delete_stream i c) = objs c" "conn_closed (delete_stream i c) = conn_closed c"
  by (simp_all add: delete_stream_def)

lemma removeStream_simps [h2_simps]:
  "nextID (removeStream i c) = nextID c" "streams (removeStream i c) = AList.delete i (streams c)"
  "cc_closed (removeStream i c) = cc_closed c" "sent (removeStream i c) = sent c"
  "length (objs (removeStream i c)) = length (objs c)"
  by (simp_all add: removeStream_def h2_simps split: option.split)

lemma failStream_simps [h2_simps]:
  "nextID (failStream i e c) = nextID c" "streams (failStream i e c) = AList.delete i (streams c)"
  "cc_closed (failStream i e c) = cc_closed c" "sent (failStream i e c) = sent c"
  "length (objs (failStream i e c)) = length (objs c)"
  by (simp_all add: failStream_def h2_simps split: option.split)

lemma fail_streams_simps [h2_simps]:
  "nextID (fail_streams e ss c) = nextID c" "streams (fail_streams e ss c) = streams c"
  "cc_closed (fail_streams e ss c) = cc_closed c" "sent (fail_streams e ss c) = sent c"
  "length (objs (fail_streams e ss c)) = length (objs c)"
  unfolding fail_streams_def by (induction ss arbitrary: c) (auto simp: h2_simps)

lemma fail_streams_Cons:
  "fail_streams e (x # ss) c = fail_streams e ss (update_obj (snd x) (stream_fail e) c)"
  by (simp add: fail_streams_def case_prod_beta)

lemma close_write_simps [simp]:
  "st_headers (close_write e st) = st_headers st" "st_errs (close_write e st) = st_errs st"
  "st_body (close_write e st) = st_body st" "st_rclosed (close_write e st) = st_rclosed st"
  "st_wclosed (close_write e st) = Some (case st_wclosed st of None \<Rightarrow> e | Some e0 \<Rightarrow> e0)"
  by (simp_all add: close_write_def split: option.split)

lemma stream_fail_simps [simp]:
  "st_headers (stream_fail e st) = st_headers st" "st_body (stream_fail e st) = st_body st"
  "st_rclosed (stream_fail e st) = st_rclosed st"
  "st_errs (stream_fail e st) = Some (case st_errs st of None \<Rightarrow> e | Some e0 \<Rightarrow> e0)"
  "st_wclosed (stream_fail e st) = Some (case st_wclosed st of None \<Rightarrow> e | Some e0 \<Rightarrow> e0)"
  by (simp_all add: stream_fail_def split: option.split)

lemma stream_fail_idem [simp]: "stream_fail e (stream_fail e st) = stream_fail e st"
  by (simp add: stream_fail_def close_write_def split: option.split)

lemma deliver_response_simps [simp]:
  "st_errs (deliver_response r st) = st_errs st" "st_body (deliver_response r st) = st_body st"
  "st_rclosed (deliver_response r st) = st_rclosed st" "st_wclosed (deliver_response r st) = st_wclosed st"
  "st_headers (deliver_response r st) = Some (case st_headers st of None \<Rightarrow> r | Some r0 \<Rightarrow> r0)"
  by (simp_all add: deliver_response_def split: option.split)

lemma objs_fail_streams [h2_simps]:
  "\<forall>x\<in>set ss. snd x < length (objs c) \<Longrightarrow>
   objs (fail_streams e ss c) ! x = (if x \<in> snd ` set ss then stream_fail e (objs c ! x) else objs c ! x)"
proof (induction ss arbitrary: c)
  case Nil
  then show ?case by (simp add: fail_streams_def)
next
  case (Cons y ss)
  then have len: "\<forall>x\<in>set ss. snd x < length (objs (update_obj (snd y) (stream_fail e) c))"
    and y: "snd y < length (objs c)" by (auto simp: h2_simps)
  from Cons.IH [OF len] y show ?case by (auto simp: fail_streams_Cons h2_simps)
qed

lemma objs_removeStream [h2_simps]:
  "\<forall>x\<in>set (streams c). snd x < length (objs c) \<Longrightarrow>
   objs (removeStream i c) ! x = (if stream_of c i = Some x then close_write EOF (objs c ! x) else objs c ! x)"
  by (fastforce simp: removeStream_def h2_simps stream_of_def split: option.split dest: map_of_SomeD)

lemma objs_failStream [h2_simps]:
  "\<forall>x\<in>set (streams c). snd x < length (objs c) \<Longrightarrow>
   objs (failStream i e c) ! x = (if stream_of c i = Some x then stream_fail e (objs c ! x) else objs c ! x)"
  by (fastforce simp: failStream_def h2_simps stream_of_def split: option.split dest: map_of_SomeD)

lemma failAll_simps [h2_simps]:
  "nextID (failAll e c) = nextID c" "streams (failAll e c) = []" "cc_closed (failAll e c)"
  "sent (failAll e c) = sent c" "length (objs (failAll e c)) = length (objs c)" "conn_closed (failAll e c)"
  by (simp_all add: failAll_def h2_simps)

lemma objs_failAll [h2_simps]:
  "\<forall>x\<in>set (streams c). snd x < length (objs c) \<Longrightarrow>
   objs (failAll e c) ! x = (if x \<in> snd ` set (streams c) then stream_fail e (objs c ! x) else objs c ! x)"
  using objs_fail_streams [of "streams c" "c\<lparr>cc_closed := True, streams := []\<rparr>" e x] by (simp add: failAll_def)

lemma Close_eq:
  "Close c = (if cc_closed c then c else failAll (Errorf ''http/2 connection closed'') c)"
  by (simp add: Close_def failAll_def)

definition control_frame :: "h2_frame \<Rightarrow> bool" where
  "control_frame f \<longleftrightarrow> (case f of FHeaders _ _ _ \<Rightarrow> False | FData _ _ _ \<Rightarrow> False | _ \<Rightarrow> True)"

lemma writeControl_prefix:
  "\<exists>ws. writeControl wr fs c = c\<lparr>sent := sent c @ ws\<rparr> \<and> (\<exists>n. ws = take n fs)"
proof -
  have "\<exists>ws. snd (fold (\<lambda>f (r, c). case r of Inl e \<Rightarrow> (Inl e, c) | Inr _ \<Rightarrow> write_frame wr f c) fs (r, c))
      = c\<lparr>sent := sent c @ ws\<rparr> \<and> (\<exists>n. ws = take n fs)" for r
  proof (induction fs arbitrary: r c)
    case Nil
    show ?case by simp
  next
    case (Cons f fs)
    show ?case
    proof (cases r)
      case (Inl e)
      have "snd (fold (\<lambda>f (r, c). case r of Inl e \<Rightarrow> (Inl e, c) | Inr _ \<Rightarrow> write_frame wr f c) gs (Inl e, c)) = c" for gs
        by (induction gs) simp_all
      with Inl show ?thesis by (intro exI [of _ "[]"]) (auto intro: exI [of _ 0])
    next
      case (Inr u)
      from write_frame_cases [of wr f c] show ?thesis
      proof
        assume w: "write_frame wr f c = (Inr (), c\<lparr>sent := sent c @ [f]\<rparr>)"
        from Cons.IH [of "Inr ()" "c\<lparr>sent := sent c @ [f]\<rparr>"] obtain n where
          "snd (fold (\<lambda>f (r, c). case r of Inl e \<Rightarrow> (Inl e, c) | Inr _ \<Rightarrow> write_frame wr f c) fs (Inr (), c\<lparr>sent := sent c @ [f]\<rparr>))
           = c\<lparr>sent := (sent c @ [f]) @ take n fs\<rparr>" by auto
        with w Inr show ?thesis by (intro exI [of _ "f # take n fs"]) (auto intro: exI [of _ "Suc n"])
      next
        assume "\<exists>e. write_frame wr f c = (Inl e, c)"
        then obtain e where w: "write_frame wr f c = (Inl e, c)" by blast
        have "snd (fold (\<lambda>f (r, c). case r of Inl e \<Rightarrow> (Inl e, c) | Inr _ \<Rightarrow> write_frame wr f c) gs (Inl e, c)) = c" for gs
          by (induction gs) simp_all
        with w Inr show ?thesis by (intro exI [of _ "[]"]) (auto intro: exI [of _ 0])
      qed
    qed
  qed
  note run = this
  show ?thesis
  proof (cases "cc_closed c")
    case True
    then show ?thesis by (intro exI [of _ "[]"]) (auto simp: writeControl_def intro: exI [of _ 0])
  next
    case False
    show ?thesis unfolding writeControl_def if_not_P [OF False] by (rule run)
  qed
qed

lemma writeControl_simps [h2_simps]:
  "nextID (writeControl wr fs c) = nextID c" "streams (writeControl wr fs c) = streams c"
  "cc_closed (writeControl wr fs c) = cc_closed c" "objs (writeControl wr fs c) = objs c"
  "stream_of (writeControl wr fs c) i = stream_of c i"
  using writeControl_prefix [of wr fs c] by (auto simp: stream_of_def)

lemma Opening_simps [h2_simps]:
  "newH2ClientConn wr p = (Inr (), c) \<Longrightarrow> streams c = [] \<and> nextID c = 1 \<and> objs c = [] \<and> \<not> cc_closed c"
  by (auto simp: newH2ClientConn_def empty_conn_def Let_def split: sum.splits prod.splits if_splits dest!: write_frame_InrD)

text \<open>A request that got a stream, and one that did not.\<close>

lemma start_sent_effect:
  assumes "start_request wr enc p req c = (Inr i, c')"
  shows "i = nextID c \<and> nextID c' = i + 2 \<and> \<not> cc_closed c \<and> \<not> cc_closed c' \<and> objs c' = objs c @ [new_stream req]
     \<and> streams c' = AList.update i (length (objs c)) (streams c)
     \<and> (\<exists>fs. sent c' = sent c @ fs \<and> (\<forall>f\<in>set fs. \<not> control_frame f))"
proof -
  let ?c = "c\<lparr>objs := objs c @ [new_stream req], nextID := nextID c + 2,
     streams := AList.update (nextID c) (length (objs c)) (streams c)\<rparr>"
  from assms obtain body block c1 where b: "i = nextID c" "\<not> cc_closed c"
    and w: "write_frame wr (FHeaders i block (length body = 0)) ?c = (Inr (), c1)"
    and d: "write_data wr i body c1 = (Inr (), c')"
    by (auto simp: start_request_def writeRequest_def Let_def split: if_splits sum.splits prod.splits)
  from write_data_keeps [OF d] obtain fs where
    "c' = c1\<lparr>sent := sent c1 @ fs\<rparr>" "\<forall>f\<in>set fs. \<exists>e d. f = FData i e d" by blast
  with b write_frame_InrD [OF w] show ?thesis
    by (auto simp: control_frame_def intro!: exI [of _ "FHeaders i block (length body = 0) # fs"])
qed

lemma start_refused_effect:
  assumes "start_request wr enc p req c = (Inl e, c')"
  shows "cc_closed c' = cc_closed c \<and> (\<exists>fs. sent c' = sent c @ fs \<and> (\<forall>f\<in>set fs. \<not> control_frame f))
     \<and> (\<exists>os. objs c' = objs c @ os)
     \<and> (nextID c' = nextID c \<and> streams c' = streams c
        \<or> nextID c' = nextID c + 2 \<and> \<not> cc_closed c \<and> (\<exists>ob. streams c' = AList.delete (nextID c) (AList.update (nextID c) ob (streams c))))"
proof (cases "readRequestBody req")
  case (Inl e1)
  with assms show ?thesis by (auto simp: start_request_def)
next
  case (Inr body)
  let ?i = "nextID c" and ?o = "length (objs c)"
  let ?base = "c\<lparr>objs := objs c @ [new_stream req]\<rparr>"
  let ?c = "?base\<lparr>nextID := ?i + 2, streams := AList.update ?i ?o (streams c)\<rparr>"
  have w: "writeRequest wr enc p req body ?o ?base = (Inl e, c')" using assms Inr by (simp add: start_request_def)
  show ?thesis
  proof (cases "cc_closed c")
    case True
    with w show ?thesis by (auto simp: writeRequest_def)
  next
    case False
    have "\<exists>fs. c' = delete_stream ?i (?c\<lparr>sent := sent c @ fs\<rparr>) \<and> (\<forall>f\<in>set fs. \<not> control_frame f)"
    proof (cases "headerBlock enc req p (length body)")
      case (Inl e1)
      with w False have "c' = delete_stream ?i ?c" by (simp add: writeRequest_def Let_def)
      then show ?thesis by (intro exI [of _ "[]"]) simp
    next
      case (Inr block)
      let ?h = "FHeaders ?i block (length body = 0)"
      from write_frame_cases [of wr ?h ?c] show ?thesis
      proof
        assume "\<exists>e. write_frame wr ?h ?c = (Inl e, ?c)"
        with w False Inr have "c' = delete_stream ?i ?c" by (auto simp: writeRequest_def Let_def)
        then show ?thesis by (intro exI [of _ "[]"]) simp
      next
        assume h: "write_frame wr ?h ?c = (Inr (), ?c\<lparr>sent := sent ?c @ [?h]\<rparr>)"
        obtain r c2 where d: "write_data wr ?i body (?c\<lparr>sent := sent ?c @ [?h]\<rparr>) = (r, c2)" by force
        from write_data_keeps [OF d] obtain fs where fs: "c2 = ?c\<lparr>sent := (sent c @ [?h]) @ fs\<rparr>"
          "\<forall>f\<in>set fs. \<exists>e d. f = FData ?i e d" by auto
        from w False Inr h d have "c' = delete_stream ?i c2"
          by (auto simp: writeRequest_def Let_def split: sum.splits)
        with fs show ?thesis by (intro exI [of _ "?h # fs"]) (auto simp: control_frame_def)
      qed
    qed
    with False show ?thesis by (auto simp: delete_stream_def)
  qed
qed

section \<open>What the server sent\<close>

text \<open>The body bytes received on a stream since it was opened, and the responses its HEADERS carried.\<close>

fun data_event :: "32 word \<Rightarrow> h2_event \<Rightarrow> bytes \<Rightarrow> bytes" where
  "data_event i (Opened j) acc = (if j = i then [] else acc)"
| "data_event i (Got (InData j d e)) acc = (if j = i then acc @ d else acc)"
| "data_event i (Got _) acc = acc"

definition data_of :: "32 word \<Rightarrow> h2_event list \<Rightarrow> bytes" where
  "data_of i lg = fold (data_event i) lg []"

lemma data_of_Nil [simp]: "data_of i [] = []" and data_of_snoc [simp]: "data_of i (lg @ [ev]) = data_event i ev (data_of i lg)"
  by (simp_all add: data_of_def)

definition responses_to :: "32 word \<Rightarrow> h2_event list \<Rightarrow> Response set" where
  "responses_to i lg = {r. \<exists>hfs e. Got (InHeaders i hfs e) \<in> set lg \<and> response_of hfs = Some r}"

definition ended_by_data :: "32 word \<Rightarrow> h2_event list \<Rightarrow> bool" where
  "ended_by_data i lg \<longleftrightarrow> (\<exists>d. Got (InData i d True) \<in> set lg)"

lemma log_mono:
  "r \<in> responses_to i lg \<Longrightarrow> r \<in> responses_to i (lg @ [ev])" "ended_by_data i lg \<Longrightarrow> ended_by_data i (lg @ [ev])"
  by (auto simp: responses_to_def ended_by_data_def)

lemma log_snoc [simp]:
  "response_of hfs = Some r \<Longrightarrow> r \<in> responses_to i (lg @ [Got (InHeaders i hfs e)])"
  "ended_by_data i (lg @ [Got (InData i d True)])"
  by (auto simp: responses_to_def ended_by_data_def)

section \<open>The invariant\<close>

fun handle :: "caller \<Rightarrow> (32 word \<times> nat) list" where
  "handle (Refused e) = []"
| "handle (Waiting i ob) = [(i, ob)]"
| "handle (Returned i ob r) = [(i, ob)]"

definition handles :: "caller list \<Rightarrow> (32 word \<times> nat) list" where
  "handles cs = concat (map handle cs)"

lemma handles_snoc [simp]: "handles (cs @ [c]) = handles cs @ handle c" and handles_Nil [simp]: "handles [] = []"
  by (simp_all add: handles_def)

lemma handles_update:
  "k < length cs \<Longrightarrow> handle (cs ! k) = handle c \<Longrightarrow> handles (cs[k := c]) = handles cs"
  by (metis handles_def list_update_id map_update)

lemma in_handles: "c \<in> set cs \<Longrightarrow> h \<in> set (handle c) \<Longrightarrow> h \<in> set (handles cs)"
  by (auto simp: handles_def)

lemma in_handles_at: "k < length cs \<Longrightarrow> h \<in> set (handle (cs ! k)) \<Longrightarrow> h \<in> set (handles cs)"
  using in_handles [of "cs ! k" cs h] by simp

lemma distinct_handle_at:
  assumes "distinct (map f (handles cs))" "k < length cs" "l < length cs" "k \<noteq> l"
    and "x \<in> set (handle (cs ! k))" "y \<in> set (handle (cs ! l))"
  shows "f x \<noteq> f y"
  using assms
proof (induction cs arbitrary: k l)
  case (Cons c cs)
  have d: "distinct (map f (handles cs))" "f ` set (handle c) \<inter> f ` set (handles cs) = {}"
    using Cons.prems(1) by (auto simp: handles_def)
  consider k' l' where "k = Suc k'" "l = Suc l'" | l' where "k = 0" "l = Suc l'" | k' where "k = Suc k'" "l = 0"
    using Cons.prems(4) by (metis not0_implies_Suc)
  then show ?case
  proof cases
    case 1
    with Cons.IH [OF d(1)] Cons.prems show ?thesis by simp
  next
    case 2
    with Cons.prems have "x \<in> set (handle c)" "y \<in> set (handles cs)" by (auto simp: handles_def)
    with d(2) show ?thesis by auto
  next
    case 3
    with Cons.prems have "y \<in> set (handle c)" "x \<in> set (handles cs)" by (auto simp: handles_def)
    with d(2) show ?thesis by force
  qed
qed simp

definition writes_to :: "reader \<Rightarrow> nat \<Rightarrow> bool" where
  "writes_to rl ob \<longleftrightarrow> (\<exists>j r t e. rl = Writing j ob r t e)"

definition body_ok :: "h2ClientConn \<Rightarrow> reader \<Rightarrow> h2_event list \<Rightarrow> 32 word \<Rightarrow> nat \<Rightarrow> bool" where
  "body_ok c rl lg i ob \<longleftrightarrow>
     (\<exists>rest. st_body (objs c ! ob) @ rest = data_of i lg
        \<and> ((i, ob) \<in> set (streams c) \<and> \<not> writes_to rl ob \<longrightarrow> rest = [])
        \<and> (\<forall>j r t e. rl = Writing j ob r t e \<longrightarrow> rest = r \<and> j = i \<and> (e \<longrightarrow> ended_by_data i lg)))"

definition response_ok :: "h2ClientConn \<Rightarrow> caller list \<Rightarrow> h2_event list \<Rightarrow> 32 word \<Rightarrow> nat \<Rightarrow> bool" where
  "response_ok c cs lg i ob \<longleftrightarrow>
     (\<forall>r. st_headers (objs c ! ob) = Some r \<longrightarrow> r \<in> responses_to i lg)
     \<and> (\<forall>r. Returned i ob (Inr r) \<in> set cs \<longrightarrow> r \<in> responses_to i lg)"

definition settled_ok :: "h2ClientConn \<Rightarrow> caller list \<Rightarrow> h2_event list \<Rightarrow> 32 word \<Rightarrow> nat \<Rightarrow> bool" where
  "settled_ok c cs lg i ob \<longleftrightarrow>
     ((i, ob) \<notin> set (streams c) \<longrightarrow> st_wclosed (objs c ! ob) \<noteq> None)
     \<and> (Waiting i ob \<in> set cs \<longrightarrow> \<not> st_rclosed (objs c ! ob)
          \<and> (st_wclosed (objs c ! ob) \<noteq> None \<longrightarrow>
               st_errs (objs c ! ob) \<noteq> None \<or> st_headers (objs c ! ob) \<noteq> None \<or> ended_by_data i lg))"

definition registry_ok_h2 :: "h2ClientConn \<Rightarrow> reader \<Rightarrow> caller list \<Rightarrow> bool" where
  "registry_ok_h2 c rl cs \<longleftrightarrow>
     distinct (map fst (streams c)) \<and> (cc_closed c \<longrightarrow> streams c = [])
     \<and> set (streams c) \<subseteq> set (handles cs)
     \<and> distinct (map fst (handles cs)) \<and> distinct (map snd (handles cs))
     \<and> (\<forall>h\<in>set (handles cs). snd h < length (objs c))
     \<and> (\<forall>j ob r t e. rl = Writing j ob r t e \<longrightarrow> (j, ob) \<in> set (handles cs))
     \<and> (\<exists>k\<le>length cs. nextID c = word_of_nat (1 + 2 * k) \<and> (\<forall>h\<in>set (handles cs). \<exists>j<k. fst h = word_of_nat (1 + 2 * j)))"

definition h2_inv :: "h2ClientConn \<Rightarrow> reader \<Rightarrow> caller list \<Rightarrow> h2_event list \<Rightarrow> bool" where
  "h2_inv c rl cs lg \<longleftrightarrow> registry_ok_h2 c rl cs
     \<and> (\<forall>i ob. (i, ob) \<in> set (handles cs) \<longrightarrow> body_ok c rl lg i ob \<and> response_ok c cs lg i ob \<and> settled_ok c cs lg i ob)"

lemma h2_invI:
  "registry_ok_h2 c rl cs \<Longrightarrow>
   (\<And>i ob. (i, ob) \<in> set (handles cs) \<Longrightarrow> body_ok c rl lg i ob) \<Longrightarrow>
   (\<And>i ob. (i, ob) \<in> set (handles cs) \<Longrightarrow> response_ok c cs lg i ob) \<Longrightarrow>
   (\<And>i ob. (i, ob) \<in> set (handles cs) \<Longrightarrow> settled_ok c cs lg i ob) \<Longrightarrow> h2_inv c rl cs lg"
  by (simp add: h2_inv_def)

lemma h2_invD:
  assumes "h2_inv c rl cs lg"
  shows "registry_ok_h2 c rl cs" "(i, ob) \<in> set (handles cs) \<Longrightarrow> body_ok c rl lg i ob"
    "(i, ob) \<in> set (handles cs) \<Longrightarrow> response_ok c cs lg i ob"
    "(i, ob) \<in> set (handles cs) \<Longrightarrow> settled_ok c cs lg i ob"
  using assms by (simp_all add: h2_inv_def)

lemma registryD:
  assumes "registry_ok_h2 c rl cs"
  shows "distinct (map fst (streams c))" "cc_closed c \<Longrightarrow> streams c = []" "set (streams c) \<subseteq> set (handles cs)"
    "distinct (map fst (handles cs))" "distinct (map snd (handles cs))"
    "h \<in> set (handles cs) \<Longrightarrow> snd h < length (objs c)" "\<forall>x\<in>set (streams c). snd x < length (objs c)"
    "rl = Writing j ob r t e \<Longrightarrow> (j, ob) \<in> set (handles cs)"
  using assms by (auto simp: registry_ok_h2_def)

lemma handle_unique:
  assumes "registry_ok_h2 c rl cs" "(i, ob) \<in> set (handles cs)" "(j, ob') \<in> set (handles cs)"
  shows "i = j \<longleftrightarrow> ob = ob'"
  using registryD(4,5) [OF assms(1)] assms(2,3) by (force simp: distinct_map inj_on_def)

lemma stream_of_registered:
  assumes "registry_ok_h2 c rl cs" "(i, ob) \<in> set (handles cs)"
  shows "stream_of c j = Some ob \<longleftrightarrow> j = i \<and> (i, ob) \<in> set (streams c)"
proof -
  have "stream_of c j = Some ob \<longleftrightarrow> (j, ob) \<in> set (streams c)"
    using registryD(1) [OF assms(1)] by (simp add: stream_of_def map_of_eq_Some_iff)
  then show ?thesis using handle_unique [OF assms] registryD(3) [OF assms(1)] assms(2) by blast
qed

section \<open>Every step keeps it\<close>

lemma registry_mono:
  assumes "registry_ok_h2 c rl cs" "nextID c' = nextID c" "length (objs c') = length (objs c)"
    and "set (streams c') \<subseteq> set (streams c)" "distinct (map fst (streams c'))" "cc_closed c' \<Longrightarrow> streams c' = []"
    and "handles cs' = handles cs" "length cs' = length cs"
    and "\<And>j ob r t e. rl' = Writing j ob r t e \<Longrightarrow> (j, ob) \<in> set (handles cs)"
  shows "registry_ok_h2 c' rl' cs'"
  using assms by (auto simp: registry_ok_h2_def)

lemma AList_delete_facts:
  "distinct (map fst xs) \<Longrightarrow> distinct (map fst (AList.delete k xs))"
  "set (AList.delete k xs) = {x \<in> set xs. fst x \<noteq> k}"
  by (auto simp: AList.delete_eq distinct_map_filter)

lemma registry_remove:
  assumes "registry_ok_h2 c rl cs"
  shows "registry_ok_h2 (removeStream i c) rl cs" "registry_ok_h2 (failStream i e c) rl cs"
    "registry_ok_h2 (failAll e c) rl cs" "registry_ok_h2 (update_obj ob f c) rl cs"
    "registry_ok_h2 (writeControl wr fs c) rl cs"
  by (rule registry_mono [OF assms]; use registryD [OF assms] in \<open>auto simp: h2_simps AList_delete_facts\<close>)+

text \<open>Failing streams, one or all.\<close>

definition fails_with :: "h2ClientConn \<Rightarrow> h2ClientConn \<Rightarrow> bool" where
  "fails_with c c' \<longleftrightarrow>
     set (streams c') \<subseteq> set (streams c)
     \<and> (\<forall>x. objs c' ! x = objs c ! x \<or> (\<exists>e. objs c' ! x = stream_fail e (objs c ! x)))
     \<and> (\<forall>(i, x)\<in>set (streams c). (i, x) \<notin> set (streams c') \<longrightarrow> (\<exists>e. objs c' ! x = stream_fail e (objs c ! x)))"

lemma inv_fails_with:
  assumes inv: "h2_inv c rl cs lg" and f: "fails_with c c'" and r: "registry_ok_h2 c' rl cs"
  shows "h2_inv c' rl cs lg"
proof (rule h2_invI [OF r])
  fix i ob assume h: "(i, ob) \<in> set (handles cs)"
  have o: "objs c' ! ob = objs c ! ob \<or> (\<exists>e. objs c' ! ob = stream_fail e (objs c ! ob))"
    using f by (auto simp: fails_with_def)
  then have same: "st_body (objs c' ! ob) = st_body (objs c ! ob)" "st_headers (objs c' ! ob) = st_headers (objs c ! ob)"
    by auto
  have sub: "set (streams c') \<subseteq> set (streams c)" using f by (simp add: fails_with_def)
  show "body_ok c' rl lg i ob" using h2_invD(2) [OF inv h] sub unfolding body_ok_def same by blast
  show "response_ok c' cs lg i ob" using h2_invD(3) [OF inv h] unfolding response_ok_def same .
  have failed: "st_wclosed (objs c' ! ob) \<noteq> None \<and> st_errs (objs c' ! ob) \<noteq> None"
    if "\<exists>e. objs c' ! ob = stream_fail e (objs c ! ob)" using that by auto
  have "(i, ob) \<in> set (streams c) \<Longrightarrow> (i, ob) \<notin> set (streams c') \<Longrightarrow> \<exists>e. objs c' ! ob = stream_fail e (objs c ! ob)"
    using f by (auto simp: fails_with_def)
  with failed have 1: "(i, ob) \<in> set (streams c) \<Longrightarrow> (i, ob) \<notin> set (streams c') \<Longrightarrow>
      st_wclosed (objs c' ! ob) \<noteq> None" by blast
  have 2: "st_rclosed (objs c' ! ob) = st_rclosed (objs c ! ob)" using o by auto
  have 3: "st_wclosed (objs c' ! ob) = st_wclosed (objs c ! ob) \<and> st_errs (objs c' ! ob) = st_errs (objs c ! ob)
      \<or> st_wclosed (objs c' ! ob) \<noteq> None \<and> st_errs (objs c' ! ob) \<noteq> None"
    using o failed by auto
  show "settled_ok c' cs lg i ob"
    using h2_invD(4) [OF inv h] sub 1 3 unfolding settled_ok_def same 2 by metis
qed

lemma fails_with_ops:
  assumes "registry_ok_h2 c rl cs"
  shows "fails_with c (failAll e c)" "fails_with c (failStream i e c)" "fails_with c (Close c)"
proof -
  note len = registryD(7) [OF assms]
  show all: "fails_with c (failAll e c)" for e
    using objs_failAll [OF len] by (auto simp: fails_with_def h2_simps rev_image_eqI)
  show "fails_with c (failStream i e c)"
    using objs_failStream [OF len] registryD(1) [OF assms]
    by (auto simp: fails_with_def h2_simps AList_delete_facts stream_of_def map_of_eq_Some_iff)
  show "fails_with c (Close c)"
  proof (cases "cc_closed c")
    case True
    then show ?thesis by (auto simp: Close_eq fails_with_def)
  qed (simp add: Close_eq all)
qed

lemma inv_fail_ops:
  assumes "h2_inv c rl cs lg"
  shows "h2_inv (failAll e c) rl cs lg" "h2_inv (failStream i e c) rl cs lg" "h2_inv (Close c) rl cs lg"
  using inv_fails_with [OF assms fails_with_ops(1) [OF h2_invD(1) [OF assms]] registry_remove(3) [OF h2_invD(1) [OF assms]]]
    inv_fails_with [OF assms fails_with_ops(2) [OF h2_invD(1) [OF assms]] registry_remove(2) [OF h2_invD(1) [OF assms]]] assms
  by (simp_all add: Close_eq)

text \<open>Removing a stream is safe when its caller, if it still waits, has something to take.\<close>

lemma inv_removeStream:
  assumes inv: "h2_inv c rl cs lg"
    and C: "\<And>ob. Waiting i ob \<in> set cs \<Longrightarrow> (i, ob) \<in> set (streams c) \<Longrightarrow> st_wclosed (objs c ! ob) \<noteq> None
        \<or> st_errs (objs c ! ob) \<noteq> None \<or> st_headers (objs c ! ob) \<noteq> None \<or> ended_by_data i lg"
  shows "h2_inv (removeStream i c) rl cs lg"
proof (rule h2_invI)
  note reg = h2_invD(1) [OF inv]
  show "registry_ok_h2 (removeStream i c) rl cs" by (rule registry_remove [OF reg])
  fix j ob assume h: "(j, ob) \<in> set (handles cs)"
  have o: "objs (removeStream i c) ! ob = (if i = j \<and> (j, ob) \<in> set (streams c) then close_write EOF (objs c ! ob) else objs c ! ob)"
    using objs_removeStream [OF registryD(7) [OF reg]] stream_of_registered [OF reg h] by simp
  then have same: "st_body (objs (removeStream i c) ! ob) = st_body (objs c ! ob)"
    "st_headers (objs (removeStream i c) ! ob) = st_headers (objs c ! ob)"
    by auto
  show "body_ok (removeStream i c) rl lg j ob"
    using h2_invD(2) [OF inv h] unfolding body_ok_def same by (auto simp: h2_simps AList_delete_facts)
  show "response_ok (removeStream i c) cs lg j ob" using h2_invD(3) [OF inv h] unfolding response_ok_def same .
  show "settled_ok (removeStream i c) cs lg j ob"
    using h2_invD(4) [OF inv h] C [of ob] unfolding settled_ok_def o by (auto simp: h2_simps AList_delete_facts)
qed

text \<open>Changes of the log, of the reader's state and of a caller.\<close>

lemma inv_log:
  assumes inv: "h2_inv c rl cs lg" and d: "\<And>i. data_event i ev (data_of i lg) = data_of i lg"
  shows "h2_inv c rl cs (lg @ [ev])"
proof (rule h2_invI [OF h2_invD(1) [OF inv]])
  fix i ob assume h: "(i, ob) \<in> set (handles cs)"
  have e: "data_of i (lg @ [ev]) = data_of i lg" using d by simp
  show "body_ok c rl (lg @ [ev]) i ob"
    using h2_invD(2) [OF inv h] log_mono(2) [of i lg ev] unfolding body_ok_def e by blast
  show "response_ok c cs (lg @ [ev]) i ob" "settled_ok c cs (lg @ [ev]) i ob"
    using h2_invD(3,4) [OF inv h] log_mono(1) [of _ i lg ev] log_mono(2) [of i lg ev] unfolding response_ok_def settled_ok_def by blast+
qed

lemma inv_reader:
  assumes inv: "h2_inv c (Writing i ob r t e) cs lg" and r: "r = [] \<or> (i, ob) \<notin> set (streams c)"
  shows "h2_inv c Reading cs lg"
proof (rule h2_invI)
  show "registry_ok_h2 c Reading cs"
    using registry_mono [OF h2_invD(1) [OF inv], of c cs Reading] registryD [OF h2_invD(1) [OF inv]] by simp
  fix j x assume h: "(j, x) \<in> set (handles cs)"
  show "response_ok c cs lg j x" "settled_ok c cs lg j x" using h2_invD(3,4) [OF inv h] .
  from h2_invD(2) [OF inv h] obtain rest where "st_body (objs c ! x) @ rest = data_of j lg"
    "(j, x) \<in> set (streams c) \<and> x \<noteq> ob \<longrightarrow> rest = []" "x = ob \<longrightarrow> rest = r \<and> i = j"
    by (auto simp: body_ok_def writes_to_def)
  with r show "body_ok c Reading lg j x" by (auto simp: body_ok_def writes_to_def)
qed

lemma inv_stopped:
  assumes inv: "h2_inv c Reading cs lg"
  shows "h2_inv c Stopped cs lg"
proof (rule h2_invI)
  show "registry_ok_h2 c Stopped cs"
    using registry_mono [OF h2_invD(1) [OF inv], of c cs Stopped] registryD [OF h2_invD(1) [OF inv]] by simp
qed (use h2_invD(2-4) [OF inv] in \<open>auto simp: body_ok_def writes_to_def\<close>)

lemma inv_writeControl: "h2_inv c rl cs lg \<Longrightarrow> h2_inv (writeControl wr fs c) rl cs lg"
  using registry_remove(5) [of c rl cs wr fs]
  by (auto simp: h2_inv_def body_ok_def response_ok_def settled_ok_def h2_simps)

lemma inv_returned:
  assumes inv: "h2_inv c rl cs lg" and k: "k < length cs" "cs ! k = Waiting i ob"
    and r: "\<And>resp. r = Inr resp \<Longrightarrow> resp \<in> responses_to i lg"
  shows "h2_inv c rl (cs[k := Returned i ob r]) lg"
proof (rule h2_invI)
  have hs: "handles (cs[k := Returned i ob r]) = handles cs" using k by (intro handles_update) simp_all
  show "registry_ok_h2 c rl (cs[k := Returned i ob r])"
    by (rule registry_mono [OF h2_invD(1) [OF inv]])
       (use registryD [OF h2_invD(1) [OF inv]] hs in auto)
  fix j x assume "(j, x) \<in> set (handles (cs[k := Returned i ob r]))"
  then have h: "(j, x) \<in> set (handles cs)" by (simp add: hs)
  show "body_ok c rl lg j x" by (rule h2_invD(2) [OF inv h])
  have "Returned j x (Inr resp) \<in> set (cs[k := Returned i ob r]) \<Longrightarrow> resp \<in> responses_to j lg" for resp
    using set_update_subset_insert [of cs k] h2_invD(3) [OF inv h] r by (fastforce simp: response_ok_def)
  then show "response_ok c (cs[k := Returned i ob r]) lg j x" using h2_invD(3) [OF inv h] by (simp add: response_ok_def)
  have "Waiting j x \<in> set (cs[k := Returned i ob r]) \<Longrightarrow> Waiting j x \<in> set cs"
    using set_update_subset_insert [of cs k] by blast
  then show "settled_ok c (cs[k := Returned i ob r]) lg j x" using h2_invD(4) [OF inv h] by (auto simp: settled_ok_def)
qed

lemma no_longer_waiting:
  assumes "registry_ok_h2 c rl cs" "k < length cs" "cs ! k = Waiting i ob"
  shows "Waiting i x \<notin> set (cs[k := Returned i ob r])"
proof
  assume "Waiting i x \<in> set (cs[k := Returned i ob r])"
  then obtain l where "l < length cs" "l \<noteq> k" "cs ! l = Waiting i x"
    using assms(2) by (auto simp: in_set_conv_nth nth_list_update split: if_splits)
  from distinct_handle_at [OF registryD(4) [OF assms(1)] assms(2) this(1), of "(i, ob)" "(i, x)"] this assms(3)
  show False by auto
qed

lemma not_waiting_if_returned:
  assumes "registry_ok_h2 c rl cs" "k < length cs" "cs ! k = Returned i ob r"
  shows "Waiting j ob \<notin> set cs" "Waiting i x \<notin> set cs"
proof -
  have *: False if "Waiting j x \<in> set cs" "j = i \<or> x = ob" for j x
  proof -
    from that obtain l where l: "l < length cs" "cs ! l = Waiting j x" by (auto simp: in_set_conv_nth)
    with assms(3) have "k \<noteq> l" by auto
    with distinct_handle_at [OF registryD(4) [OF assms(1)] assms(2) l(1), of "(i, ob)" "(j, x)"]
      distinct_handle_at [OF registryD(5) [OF assms(1)] assms(2) l(1), of "(i, ob)" "(j, x)"] assms(3) l that(2)
    show False by auto
  qed
  show "Waiting j ob \<notin> set cs" "Waiting i x \<notin> set cs" using * by blast+
qed

text \<open>Changing one stream object.\<close>

lemma inv_update_obj:
  assumes inv: "h2_inv c rl cs lg" and h: "(i, ob) \<in> set (handles cs)"
    and b: "body_ok (update_obj ob f c) rl lg i ob" and r: "response_ok (update_obj ob f c) cs lg i ob"
    and st: "settled_ok (update_obj ob f c) cs lg i ob"
  shows "h2_inv (update_obj ob f c) rl cs lg"
proof (rule h2_invI)
  show "registry_ok_h2 (update_obj ob f c) rl cs" by (rule registry_remove(4) [OF h2_invD(1) [OF inv]])
  fix j x assume j: "(j, x) \<in> set (handles cs)"
  show "body_ok (update_obj ob f c) rl lg j x" "response_ok (update_obj ob f c) cs lg j x"
    "settled_ok (update_obj ob f c) cs lg j x"
    using b r st h2_invD(2-4) [OF inv j] handle_unique [OF h2_invD(1) [OF inv] h j]
    by (cases "x = ob"; simp add: body_ok_def response_ok_def settled_ok_def h2_simps)+
qed

lemma inv_step_callers:
  assumes inv: "h2_inv c rl cs lg" and k: "k < length cs" "cs ! k = Waiting i ob"
  shows "st_headers (objs c ! ob) = Some resp \<Longrightarrow>
      h2_inv (update_obj ob (\<lambda>st. st\<lparr>st_headers := None\<rparr>) c) rl (cs[k := Returned i ob (Inr resp)]) lg"
    and "h2_inv (removeStream i (update_obj ob (\<lambda>st. st\<lparr>st_errs := None\<rparr>) c)) rl (cs[k := Returned i ob (Inl e)]) lg"
    and "h2_inv (removeStream i c) rl (cs[k := Returned i ob (Inl e)]) lg"
proof -
  note reg = h2_invD(1) [OF inv]
  have h: "(i, ob) \<in> set (handles cs)" using k in_handles_at [of k cs "(i, ob)"] by simp
  have hs: "handles (cs[k := Returned i ob r]) = handles cs" for r using k by (intro handles_update) simp_all
  have h': "(i, ob) \<in> set (handles (cs[k := Returned i ob r]))" for r by (simp add: hs h)
  have nw: "Waiting i x \<notin> set (cs[k := Returned i ob r])" for x r by (rule no_longer_waiting [OF reg k])
  show "h2_inv (update_obj ob (\<lambda>st. st\<lparr>st_headers := None\<rparr>) c) rl (cs[k := Returned i ob (Inr resp)]) lg"
    if "st_headers (objs c ! ob) = Some resp"
  proof -
    have "resp \<in> responses_to i lg" using h2_invD(3) [OF inv h] that by (simp add: response_ok_def)
    then have inv': "h2_inv c rl (cs[k := Returned i ob (Inr resp)]) lg" by (intro inv_returned [OF inv k]) simp
    show ?thesis
      by (rule inv_update_obj [OF inv' h'])
         (use h2_invD(2-4) [OF inv' h'] nw in \<open>auto simp: body_ok_def response_ok_def settled_ok_def h2_simps\<close>)
  qed
  have inv': "h2_inv c rl (cs[k := Returned i ob (Inl e)]) lg" by (intro inv_returned [OF inv k]) simp
  show "h2_inv (removeStream i c) rl (cs[k := Returned i ob (Inl e)]) lg"
    by (rule inv_removeStream [OF inv']) (use nw in blast)
  have "h2_inv (update_obj ob (\<lambda>st. st\<lparr>st_errs := None\<rparr>) c) rl (cs[k := Returned i ob (Inl e)]) lg"
    by (rule inv_update_obj [OF inv' h'])
       (use h2_invD(2-4) [OF inv' h'] nw in \<open>auto simp: body_ok_def response_ok_def settled_ok_def h2_simps\<close>)
  then show "h2_inv (removeStream i (update_obj ob (\<lambda>st. st\<lparr>st_errs := None\<rparr>) c)) rl (cs[k := Returned i ob (Inl e)]) lg"
    by (rule inv_removeStream) (use nw in blast)
qed

lemma inv_body_close:
  assumes inv: "h2_inv c rl cs lg" and k: "k < length cs" "cs ! k = Returned i ob r"
  shows "h2_inv (h2Body_Close i ob c) rl cs lg"
proof -
  note nw = not_waiting_if_returned [OF h2_invD(1) [OF inv] k]
  have h: "(i, ob) \<in> set (handles cs)" using k in_handles_at [of k cs "(i, ob)"] by simp
  have "h2_inv (update_obj ob (\<lambda>st. st\<lparr>st_rclosed := True\<rparr>) c) rl cs lg"
    by (rule inv_update_obj [OF inv h])
       (use h2_invD(2-4) [OF inv h] nw in \<open>auto simp: body_ok_def response_ok_def settled_ok_def h2_simps\<close>)
  then show ?thesis unfolding h2Body_Close_def by (rule inv_removeStream) (use nw in blast)
qed

lemma inv_handleHeaders:
  assumes inv: "h2_inv c Reading cs lg"
  shows "h2_inv (handleHeaders i hfs e c) Reading cs (lg @ [Got (InHeaders i hfs e)])"
proof -
  have inv': "h2_inv c Reading cs (lg @ [Got (InHeaders i hfs e)])" (is "h2_inv _ _ _ ?lg")
    by (rule inv_log [OF inv]) simp
  note reg = h2_invD(1) [OF inv']
  show ?thesis
  proof (cases "stream_of c i")
    case None
    with inv' show ?thesis by (simp add: handleHeaders_def)
  next
    case (Some ob)
    then have m: "(i, ob) \<in> set (streams c)" by (auto simp: stream_of_def dest: map_of_SomeD)
    then have h: "(i, ob) \<in> set (handles cs)" using registryD(3) [OF reg] by blast
    note I = h2_invD(2-4) [OF inv' h] registryD(6) [OF reg h]
    show ?thesis
    proof (cases "response_of hfs")
      case None
      have "h2_inv (update_obj ob (stream_fail (Errorf ''http/2 response missing :status'')) c) Reading cs ?lg"
        by (rule inv_update_obj [OF inv' h])
           (use I in \<open>auto simp: body_ok_def response_ok_def settled_ok_def h2_simps\<close>)
      with None Some show ?thesis by (simp add: handleHeaders_def)
    next
      case (Some r)
      have inv2: "h2_inv (update_obj ob (deliver_response r) c) Reading cs ?lg"
        by (rule inv_update_obj [OF inv' h])
           (use I Some in \<open>auto simp: body_ok_def response_ok_def settled_ok_def h2_simps split: option.splits\<close>)
      have "st_headers (objs (update_obj ob (deliver_response r) c) ! x) \<noteq> None"
        if "(i, x) \<in> set (streams c)" for x
        using that m registryD(1) [OF reg] I(4) eq_key_imp_eq_value [of "streams c" i x ob] by (simp add: h2_simps)
      then have "h2_inv (removeStream i (update_obj ob (deliver_response r) c)) Reading cs ?lg"
        by (intro inv_removeStream [OF inv2]) (auto simp: h2_simps)
      with inv2 Some \<open>stream_of c i = Some ob\<close> show ?thesis by (cases e) (simp_all add: handleHeaders_def endStream_def Let_def)
    qed
  qed
qed

lemma inv_handleData_begin:
  assumes inv: "h2_inv c Reading cs lg" and d: "handleData_begin i data e c = (c', rl)"
  shows "h2_inv c' rl cs (lg @ [Got (InData i data e)])"
proof -
  let ?lg = "lg @ [Got (InData i data e)]"
  note reg = h2_invD(1) [OF inv]
  have other: "response_ok c cs ?lg j x" "settled_ok c cs ?lg j x" if "(j, x) \<in> set (handles cs)" for j x
    using h2_invD(3,4) [OF inv that] log_mono(1) [of _ j lg "Got (InData i data e)"]
      log_mono(2) [of j lg "Got (InData i data e)"] unfolding response_ok_def settled_ok_def by blast+
  show ?thesis
  proof (cases "stream_of c i")
    case None
    have "body_ok c Reading ?lg j x" if "(j, x) \<in> set (handles cs)" for j x
    proof -
      from h2_invD(2) [OF inv that] obtain rest where
        r: "st_body (objs c ! x) @ rest = data_of j lg" "(j, x) \<in> set (streams c) \<longrightarrow> rest = []"
        by (auto simp: body_ok_def writes_to_def)
      have n: "(j, x) \<in> set (streams c) \<Longrightarrow> j \<noteq> i" using None by (force simp: stream_of_def map_of_eq_None_iff)
      let ?rest = "if i = j then rest @ data else rest"
      have "st_body (objs c ! x) @ ?rest = data_of j ?lg" using r(1) by (simp flip: append_assoc)
      moreover have "(j, x) \<in> set (streams c) \<longrightarrow> ?rest = []" using r(2) n by auto
      ultimately show ?thesis unfolding body_ok_def writes_to_def by blast
    qed
    with None d other reg show ?thesis by (auto simp: handleData_begin_def intro: h2_invI)
  next
    case (Some ob)
    then have m: "(i, ob) \<in> set (streams c)" by (auto simp: stream_of_def dest: map_of_SomeD)
    then have h: "(i, ob) \<in> set (handles cs)" using registryD(3) [OF reg] by blast
    show ?thesis
    proof (cases "data = []")
      case True
      then have inv': "h2_inv c Reading cs ?lg" by (intro inv_log [OF inv]) auto
      have "h2_inv (removeStream i c) Reading cs ?lg" if e by (rule inv_removeStream [OF inv']) (simp add: that)
      with inv' True d Some show ?thesis by (auto simp: handleData_begin_def endStream_def split: if_splits)
    next
      case False
      let ?w = "Writing i ob data (length data) e"
      have "registry_ok_h2 c ?w cs"
        by (rule registry_mono [OF reg]) (use registryD [OF reg] h in auto)
      moreover have "body_ok c ?w ?lg j x" if j: "(j, x) \<in> set (handles cs)" for j x
      proof -
        from h2_invD(2) [OF inv j] obtain rest where
          "st_body (objs c ! x) @ rest = data_of j lg" "(j, x) \<in> set (streams c) \<longrightarrow> rest = []"
          by (auto simp: body_ok_def writes_to_def)
        with handle_unique [OF reg h j] m show ?thesis by (auto simp: body_ok_def writes_to_def)
      qed
      ultimately have "h2_inv c ?w cs ?lg" using other by (intro h2_invI)
      with False Some d show ?thesis by (auto simp: handleData_begin_def)
    qed
  qed
qed

lemma inv_body_read:
  assumes inv: "h2_inv c (Writing i ob rest t e) cs lg"
  shows "h2_inv (update_obj ob (\<lambda>st. st\<lparr>st_body := st_body st @ take n rest\<rparr>) c) (Writing i ob (drop n rest) t e) cs lg"
    (is "h2_inv ?c ?w cs lg")
proof (rule h2_invI)
  note reg = h2_invD(1) [OF inv]
  have h: "(i, ob) \<in> set (handles cs)" by (rule registryD(8) [OF reg refl])
  show "registry_ok_h2 ?c ?w cs"
    by (rule registry_mono [OF reg]) (use registryD [OF reg] h in \<open>auto simp: h2_simps\<close>)
  fix j x assume j: "(j, x) \<in> set (handles cs)"
  show "response_ok ?c cs lg j x" "settled_ok ?c cs lg j x"
    using h2_invD(3,4) [OF inv j] by (auto simp: response_ok_def settled_ok_def h2_simps)
  from h2_invD(2) [OF inv j] obtain r where r: "st_body (objs c ! x) @ r = data_of j lg"
    "(j, x) \<in> set (streams c) \<and> x \<noteq> ob \<longrightarrow> r = []" "x = ob \<longrightarrow> r = rest \<and> j = i \<and> (e \<longrightarrow> ended_by_data i lg)"
    by (auto simp: body_ok_def writes_to_def)
  show "body_ok ?c ?w lg j x"
  proof (cases "x = ob")
    case True
    have "st_body (objs ?c ! x) @ drop n rest = data_of j lg"
      using r True registryD(6) [OF reg h] by (simp add: h2_simps)
    with True r show ?thesis by (auto simp: body_ok_def writes_to_def)
  next
    case False
    with r show ?thesis by (auto simp: body_ok_def writes_to_def h2_simps)
  qed
qed

lemma inv_written:
  assumes inv: "h2_inv c (Writing i ob [] t e) cs lg" and w: "handleData_written wr i t e c = (c', r)"
  shows "h2_inv c' r cs lg"
proof -
  have h: "(i, ob) \<in> set (handles cs)" by (rule registryD(8) [OF h2_invD(1) [OF inv] refl])
  have e: "e \<Longrightarrow> ended_by_data i lg" using h2_invD(2) [OF inv h] by (auto simp: body_ok_def)
  have inv': "h2_inv (writeControl wr fs c) Reading cs lg" for fs
    by (rule inv_writeControl) (rule inv_reader [OF inv disjI1 [OF refl]])
  then have "h2_inv (removeStream i (writeControl wr fs c)) Reading cs lg" if e for fs
    by (rule inv_removeStream) (use that \<open>e \<Longrightarrow> ended_by_data i lg\<close> in blast)
  with inv' w show ?thesis by (auto simp: handleData_written_def endStream_def Let_def split: if_splits)
qed

lemma inv_aborted:
  assumes inv: "h2_inv c (Writing i ob rest t e) cs lg" and p: "pipe_closed (objs c ! ob)"
  shows "h2_inv (removeStream i c) Reading cs lg"
proof -
  note reg = h2_invD(1) [OF inv]
  have h: "(i, ob) \<in> set (handles cs)" by (rule registryD(8) [OF reg refl])
  have "h2_inv (removeStream i c) (Writing i ob rest t e) cs lg"
  proof (rule inv_removeStream [OF inv])
    fix x assume w: "Waiting i x \<in> set cs" and "(i, x) \<in> set (streams c)"
    then have "x = ob" using handle_unique [OF reg h] registryD(3) [OF reg] by blast
    with w h2_invD(4) [OF inv h] p show "st_wclosed (objs c ! x) \<noteq> None \<or> st_errs (objs c ! x) \<noteq> None
        \<or> st_headers (objs c ! x) \<noteq> None \<or> ended_by_data i lg"
      by (auto simp: settled_ok_def pipe_closed_def)
  qed
  moreover have "(i, ob) \<notin> set (streams (removeStream i c))" by (simp add: h2_simps AList_delete_facts)
  ultimately show ?thesis by (blast intro: inv_reader)
qed

lemma update_new: "k \<notin> fst ` set al \<Longrightarrow> AList.update k v al = al @ [(k, v)]"
  by (induction al) auto

lemma odd_ids_inj:
  assumes "j < k" "k < 2 ^ 31"
  shows "(word_of_nat (1 + 2 * j) :: 32 word) \<noteq> word_of_nat (1 + 2 * k)"
proof
  assume e: "(word_of_nat (1 + 2 * j) :: 32 word) = word_of_nat (1 + 2 * k)"
  have "unat (word_of_nat (1 + 2 * n) :: 32 word) = 1 + 2 * n" if "n < 2 ^ 31" for n
    by (rule trans [OF unat_of_nat]) (use that in simp)
  from this [of j] this [of k] e assms show False by simp
qed

lemma next_id_fresh:
  assumes "registry_ok_h2 c rl cs" "length cs < 2 ^ 31" "h \<in> set (handles cs)"
  shows "fst h \<noteq> nextID c"
proof -
  from assms(1) obtain k where k: "k \<le> length cs" "nextID c = word_of_nat (1 + 2 * k)"
    "\<forall>h\<in>set (handles cs). \<exists>j<k. fst h = word_of_nat (1 + 2 * j)" by (auto simp: registry_ok_h2_def)
  from k(3) assms(3) obtain j where "j < k" "fst h = word_of_nat (1 + 2 * j)" by blast
  moreover have "k < 2 ^ 31" using k(1) assms(2) by simp
  ultimately show ?thesis unfolding k(2) using odd_ids_inj by metis
qed

lemma next_id_step:
  assumes "\<exists>k\<le>n. c = word_of_nat (1 + 2 * k) \<and> (\<forall>h\<in>H. \<exists>j<k. fst h = (word_of_nat (1 + 2 * j) :: 32 word))"
  shows "\<exists>k\<le>Suc n. c + 2 = word_of_nat (1 + 2 * k) \<and> (\<forall>h\<in>insert (c, x) H. \<exists>j<k. fst h = word_of_nat (1 + 2 * j))"
proof -
  from assms obtain k where k: "k \<le> n" "c = word_of_nat (1 + 2 * k)" "\<forall>h\<in>H. \<exists>j<k. fst h = word_of_nat (1 + 2 * j)" by blast
  have "c + 2 = word_of_nat (1 + 2 * Suc k)" by (simp add: k(2))
  moreover have "\<forall>h\<in>insert (c, x) H. \<exists>j<Suc k. fst h = word_of_nat (1 + 2 * j)" using k(2,3) less_SucI by fastforce
  ultimately show ?thesis using k(1) by blast
qed

lemma inv_start_sent:
  assumes inv: "h2_inv c rl cs lg" and b: "length cs < 2 ^ 31"
    and st: "start_request wr enc p req c = (Inr i, c')"
  shows "h2_inv c' rl (cs @ [Waiting i (length (objs c))]) (lg @ [Opened i])"
proof (rule h2_invI)
  note reg = h2_invD(1) [OF inv] and eff = start_sent_effect [OF st]
  let ?ob = "length (objs c)" and ?cs = "cs @ [Waiting i (length (objs c))]"
  have fresh: "j \<noteq> i \<and> x \<noteq> ?ob" if "(j, x) \<in> set (handles cs)" for j x
    using next_id_fresh [OF reg b that] registryD(6) [OF reg that] eff by auto
  have "i \<notin> fst ` set (streams c)" using registryD(3) [OF reg] fresh by fastforce
  then have str: "streams c' = streams c @ [(i, ?ob)]" using eff update_new by metis
  have obj: "objs c' ! x = objs c ! x" if "(j, x) \<in> set (handles cs)" for j x
    using registryD(6) [OF reg that] eff by (simp add: nth_append)
  have new: "objs c' ! ?ob = new_stream req" using eff by simp
  have ids: "\<exists>k\<le>length ?cs. nextID c' = word_of_nat (1 + 2 * k) \<and> (\<forall>h\<in>set (handles ?cs). \<exists>j<k. fst h = word_of_nat (1 + 2 * j))"
    using next_id_step [of "length cs" "nextID c" "set (handles cs)" ?ob] reg eff by (simp add: registry_ok_h2_def)
  have "i \<notin> fst ` set (handles cs)" "?ob \<notin> snd ` set (handles cs)" using fresh by force+
  with ids eff str registryD [OF reg] \<open>i \<notin> fst ` set (streams c)\<close>
  show "registry_ok_h2 c' rl ?cs" by (auto simp: registry_ok_h2_def less_Suc_eq)
  have old_log: "data_of j (lg @ [Opened i]) = data_of j lg" if "(j, x) \<in> set (handles cs)" for j x
    using fresh [OF that] by auto
  have new_rl: "rl \<noteq> Writing j ?ob r t e" for j r t e using registryD(8) [OF reg] fresh by fastforce
  fix j x assume "(j, x) \<in> set (handles ?cs)"
  then consider (old) "(j, x) \<in> set (handles cs)" | (new) "j = i" "x = ?ob" by auto
  then have "body_ok c' rl (lg @ [Opened i]) j x \<and> response_ok c' ?cs (lg @ [Opened i]) j x
    \<and> settled_ok c' ?cs (lg @ [Opened i]) j x"
  proof cases
    case old
    note I = h2_invD(2-4) [OF inv old] and L = log_mono(1) [of _ j lg "Opened i"] log_mono(2) [of j lg "Opened i"]
    have m: "(j, x) \<in> set (streams c @ [(i, ?ob)]) \<longleftrightarrow> (j, x) \<in> set (streams c)" using fresh [OF old] by simp
    have 1: "body_ok c' rl (lg @ [Opened i]) j x"
      using I(1) L(2) unfolding body_ok_def obj [OF old] old_log [OF old] str m by blast
    have 2: "response_ok c' ?cs (lg @ [Opened i]) j x"
      using I(2) L(1) unfolding response_ok_def obj [OF old] by auto
    have "settled_ok c' ?cs (lg @ [Opened i]) j x"
      using I(3) L(2) fresh [OF old] unfolding settled_ok_def obj [OF old] str by auto
    with 1 2 show ?thesis by blast
  next
    case new
    have "Returned i ?ob r \<notin> set cs" for r using in_handles [of "Returned i ?ob r" cs "(i, ?ob)"] fresh by auto
    then have 1: "response_ok c' ?cs (lg @ [Opened i]) j x"
      using \<open>objs c' ! ?ob = new_stream req\<close> by (auto simp: new response_ok_def new_stream_def)
    have 2: "settled_ok c' ?cs (lg @ [Opened i]) j x"
      using \<open>objs c' ! ?ob = new_stream req\<close> by (auto simp: new settled_ok_def new_stream_def str)
    have "body_ok c' rl (lg @ [Opened i]) j x"
      using \<open>objs c' ! ?ob = new_stream req\<close> new_rl by (auto simp: new body_ok_def new_stream_def str)
    with 1 2 show ?thesis by blast
  qed
  then show "body_ok c' rl (lg @ [Opened i]) j x" "response_ok c' ?cs (lg @ [Opened i]) j x"
    "settled_ok c' ?cs (lg @ [Opened i]) j x" by blast+
qed

lemma inv_start_refused:
  assumes inv: "h2_inv c rl cs lg" and b: "length cs < 2 ^ 31"
    and st: "start_request wr enc p req c = (Inl e, c')"
  shows "h2_inv c' rl (cs @ [Refused e]) lg"
proof (rule h2_invI)
  note reg = h2_invD(1) [OF inv] and eff = start_refused_effect [OF st]
  let ?cs = "cs @ [Refused e]"
  have notin: "nextID c \<notin> fst ` set (streams c)"
    using registryD(3) [OF reg] next_id_fresh [OF reg b] by fastforce
  have "AList.delete (nextID c) (AList.update (nextID c) ob (streams c)) = streams c" for ob
  proof -
    have "AList.delete (nextID c) (streams c @ [(nextID c, ob)]) = streams c"
      using notin by (force simp: AList.delete_eq filter_id_conv)
    then show ?thesis using update_new [OF notin] by simp
  qed
  with eff have str: "streams c' = streams c" and
    next_id: "nextID c' = nextID c \<or> nextID c' = nextID c + 2" by auto
  have hs: "handles ?cs = handles cs" by simp
  have obj: "objs c' ! x = objs c ! x" if "(j, x) \<in> set (handles cs)" for j x
    using registryD(6) [OF reg that] eff by (auto simp: nth_append)
  have len: "length (objs c) \<le> length (objs c')" using eff by auto
  have "\<exists>k\<le>length ?cs. nextID c' = word_of_nat (1 + 2 * k) \<and> (\<forall>h\<in>set (handles cs). \<exists>j<k. fst h = word_of_nat (1 + 2 * j))"
    using next_id
  proof
    assume "nextID c' = nextID c"
    with reg show ?thesis unfolding registry_ok_h2_def by (metis le_SucI length_append_singleton)
  next
    assume "nextID c' = nextID c + 2"
    with next_id_step [of "length cs" "nextID c" "set (handles cs)" undefined] reg show ?thesis
      by (auto simp: registry_ok_h2_def)
  qed
  with registryD [OF reg] eff str len show "registry_ok_h2 c' rl ?cs"
    unfolding registry_ok_h2_def hs by (auto intro: less_le_trans)
  fix j x assume "(j, x) \<in> set (handles ?cs)"
  then have h: "(j, x) \<in> set (handles cs)" by simp
  show "body_ok c' rl lg j x" "response_ok c' ?cs lg j x" "settled_ok c' ?cs lg j x"
    using h2_invD(2-4) [OF inv h] unfolding body_ok_def response_ok_def settled_ok_def obj [OF h] str by auto
qed

lemma h2_step_inv:
  assumes "h2_step wr enc p s s'" "h2_inv (hconn s) (rloop s) (callers s) (log s)" "length (callers s) < 2 ^ 31"
  shows "h2_inv (hconn s') (rloop s') (callers s') (log s')"
  using assms
proof (cases rule: h2_step.cases)
  case (frame f c r)
  show ?thesis
  proof (cases f)
    case (InHeaders i hfs e)
    with frame assms(2) show ?thesis by (auto simp: read_frame_def intro!: inv_handleHeaders)
  next
    case (InData i data e)
    with frame assms(2) show ?thesis by (auto simp: read_frame_def intro!: inv_handleData_begin)
  qed (use frame assms(2) in \<open>auto simp: read_frame_def intro!: inv_writeControl inv_fail_ops inv_log\<close>)
qed (auto intro: inv_start_sent inv_start_refused inv_step_callers inv_body_close inv_fail_ops inv_stopped
       inv_body_read inv_written inv_aborted simp: handleData_failed_def)

section \<open>What holds of every run\<close>

lemma h2_step_callers: "h2_step wr enc p s s' \<Longrightarrow> length (callers s) \<le> length (callers s')"
  by (cases rule: h2_step.cases) auto

lemma h2_inv_started: "newH2ClientConn wr p = (Inr (), c) \<Longrightarrow> h2_inv c Reading [] []"
  using Opening_simps [of wr p c] by (auto simp: h2_inv_def registry_ok_h2_def intro: exI [of _ 0])

lemma h2_reach_inv:
  "h2_reach wr enc p s \<Longrightarrow> length (callers s) < 2 ^ 31 \<Longrightarrow> h2_inv (hconn s) (rloop s) (callers s) (log s)"
proof (induction rule: h2_reach.induct)
  case (opened c)
  then show ?case by (simp add: started_def h2_inv_started)
next
  case (stepped s s')
  have "length (callers s) < 2 ^ 31" using h2_step_callers [OF stepped(2)] stepped(4) by simp
  then show ?case using h2_step_inv [OF stepped(2) stepped(3)] by simp
qed

lemma handle_id:
  assumes "registry_ok_h2 c rl cs" "length cs < 2 ^ 31" "h \<in> set (handles cs)"
  shows "odd (unat (fst h))"
proof -
  from assms obtain k j where "k \<le> length cs" "j < k" "fst h = word_of_nat (1 + 2 * j)"
    by (auto simp: registry_ok_h2_def)
  moreover from this assms(2) have "unat (word_of_nat (1 + 2 * j) :: 32 word) = 1 + 2 * j"
    by (intro trans [OF unat_of_nat]) simp
  ultimately show ?thesis by simp
qed

text \<open>C9: no two requests of a connection ever share a stream: in every interleaving of fewer than 2^31 calls the
  identifiers the callers hold are distinct and odd, and so are their stream objects.\<close>

theorem stream_ids_unique:
  assumes "h2_reach wr enc p s" "length (callers s) < 2 ^ 31"
  shows "distinct (map fst (handles (callers s))) \<and> distinct (map snd (handles (callers s)))
     \<and> list_all (\<lambda>h. odd (unat (fst h))) (handles (callers s))"
  using h2_invD(1) [OF h2_reach_inv [OF assms]] handle_id [OF _ assms(2)]
  by (auto simp: list_all_iff dest: registryD(4,5))

text \<open>C1: responses never cross, in any interleaving of fewer than 2^31 calls: what \<open>RoundTrip\<close> returns was decoded from a HEADERS frame of the caller's own
  stream, and the bytes its body has yielded are a prefix of the DATA received on that stream, complete
  while the stream is open and the read loop idle.\<close>

theorem h2_no_crosstalk:
  assumes "h2_reach wr enc p s" "length (callers s) < 2 ^ 31" "Returned i ob (Inr r) \<in> set (callers s)"
  shows "r \<in> responses_to i (log s) \<and> (\<exists>rest. data_of i (log s) = st_body (objs (hconn s) ! ob) @ rest)
     \<and> ((i, ob) \<in> set (streams (hconn s)) \<and> rloop s = Reading \<longrightarrow> st_body (objs (hconn s) ! ob) = data_of i (log s))"
proof -
  note inv = h2_reach_inv [OF assms(1,2)]
  have h: "(i, ob) \<in> set (handles (callers s))" using in_handles [OF assms(3)] by simp
  have "r \<in> responses_to i (log s)" using h2_invD(3) [OF inv h] assms(3) by (auto simp: response_ok_def)
  moreover from h2_invD(2) [OF inv h] obtain rest where "st_body (objs (hconn s) ! ob) @ rest = data_of i (log s)"
    "(i, ob) \<in> set (streams (hconn s)) \<and> \<not> writes_to (rloop s) ob \<longrightarrow> rest = []"
    by (auto simp: body_ok_def)
  ultimately show ?thesis by (auto simp: writes_to_def intro: exI [of _ rest])
qed

text \<open>C2: no caller is left waiting on a stream that is gone, in any interleaving of fewer than 2^31 calls: once its stream is unregistered (and after a close,
  a GOAWAY or a read error every stream is) a caller has a response or an error to take, unless the server
  ended the stream with a DATA frame.\<close>

theorem h2_caller_can_return:
  assumes "h2_reach wr enc p s" "length (callers s) < 2 ^ 31" "Waiting i ob \<in> set (callers s)"
    and "cc_closed (hconn s) \<or> stream_of (hconn s) i = None"
  shows "st_headers (objs (hconn s) ! ob) \<noteq> None \<or> st_errs (objs (hconn s) ! ob) \<noteq> None \<or> ended_by_data i (log s)"
proof -
  note inv = h2_reach_inv [OF assms(1,2)]
  have h: "(i, ob) \<in> set (handles (callers s))" using in_handles [OF assms(3)] by simp
  have "(i, ob) \<notin> set (streams (hconn s))"
    using assms(4) registryD(2) [OF h2_invD(1) [OF inv]] by (auto simp: stream_of_def map_of_eq_None_iff rev_image_eqI)
  with h2_invD(4) [OF inv h] assms(3) show ?thesis by (auto simp: settled_ok_def)
qed

section \<open>Flow control\<close>

definition window_credit :: "h2_frame list \<Rightarrow> nat" where
  "window_credit fs = sum_list (map (\<lambda>f. case f of FWindowUpdate i n \<Rightarrow> if i = 0 then unat n else 0 | _ \<Rightarrow> 0) fs)"

definition data_received :: "h2_event list \<Rightarrow> nat" where
  "data_received lg = sum_list (map (\<lambda>ev. case ev of Got (InData _ d _) \<Rightarrow> length d | _ \<Rightarrow> 0) lg)"

fun pending_credit :: "reader \<Rightarrow> nat" where
  "pending_credit (Writing i ob rest t e) = t"
| "pending_credit _ = 0"

lemma window_credit_simps [simp]:
  "window_credit [] = 0" "window_credit (fs @ gs) = window_credit fs + window_credit gs"
  by (simp_all add: window_credit_def)

lemma data_received_simps [simp]:
  "data_received [] = 0" "data_received (lg @ lg') = data_received lg + data_received lg'"
  by (simp_all add: data_received_def)

lemma window_credit_request: "\<forall>f\<in>set fs. \<not> control_frame f \<Longrightarrow> window_credit fs = 0"
  by (induction fs) (auto simp: window_credit_def control_frame_def split: h2_frame.splits)

lemma window_credit_take: "window_credit (take n fs) \<le> window_credit fs"
proof -
  have "window_credit fs = window_credit (take n fs) + window_credit (drop n fs)"
    by (metis append_take_drop_id window_credit_simps(2))
  then show ?thesis by simp
qed

lemma window_credit_writeControl:
  "window_credit (sent (writeControl wr fs c)) \<le> window_credit (sent c) + window_credit fs"
  using writeControl_prefix [of wr fs c] window_credit_take [of _ fs] by auto

lemma sent_simps [h2_simps]:
  "sent (handleHeaders i hfs e c) = sent c" "sent (endStream i c) = sent c" "sent (Close c) = sent c"
  "sent (h2Body_Close i ob c) = sent c"
  by (simp_all add: handleHeaders_def endStream_def Close_eq h2Body_Close_def Let_def h2_simps split: option.split)

lemma credit_step:
  assumes st: "h2_step wr enc p s s'" and id: "\<And>i ob r t e. rloop s = Writing i ob r t e \<Longrightarrow> i \<noteq> 0"
    and le: "window_credit (sent (hconn s)) + pending_credit (rloop s) \<le> W + data_received (log s)"
  shows "window_credit (sent (hconn s')) + pending_credit (rloop s') \<le> W + data_received (log s')"
  using st
proof (cases rule: h2_step.cases)
  case (start_sent req i c)
  with start_sent_effect [OF start_sent(2)] le window_credit_request show ?thesis
    by (auto simp: data_received_def)
next
  case (start_refused req e c)
  with start_refused_effect [OF start_refused(2)] le window_credit_request show ?thesis by auto
next
  case (frame f c r)
  have ctl: "window_credit (sent (writeControl wr fs (hconn s))) \<le> W + data_received (log s)"
    if "window_credit fs = 0" for fs
    using window_credit_writeControl [of wr fs "hconn s"] le that by simp
  have zero: "window_credit [FSettingsAck] = 0" "window_credit [FPingAck d] = 0" for d
    by (simp_all add: window_credit_def)
  have idle: "window_credit (sent (hconn s)) \<le> W + data_received (log s)" using le by simp
  have "window_credit (sent c) + pending_credit r \<le> W + data_received (log s) + data_received [Got f]"
  proof (cases f)
    case (InSettings ack)
    with frame idle ctl [OF zero(1)] show ?thesis by (auto simp: read_frame_def split: if_splits)
  next
    case (InPing ack d)
    with frame idle ctl [OF zero(2) [of d]] show ?thesis by (auto simp: read_frame_def split: if_splits)
  next
    case (InData i d e)
    with frame idle show ?thesis
      by (auto simp: read_frame_def handleData_begin_def h2_simps data_received_def split: if_splits option.splits)
  qed (use frame idle in \<open>auto simp: read_frame_def h2_simps\<close>)
  with frame show ?thesis by simp
next
  case (body_written i ob t e c r)
  have n: "unat (word_of_nat t :: 32 word) \<le> t" by (simp add: unat_of_nat)
  have "window_credit [FWindowUpdate 0 (word_of_nat t), FWindowUpdate i (word_of_nat t)] \<le> t"
    using id [OF body_written(2)] n by (simp add: window_credit_def)
  then have "window_credit (sent (writeControl wr [FWindowUpdate 0 (word_of_nat t), FWindowUpdate i (word_of_nat t)] (hconn s)))
      \<le> W + data_received (log s)"
    using window_credit_writeControl [of wr "[FWindowUpdate 0 (word_of_nat t), FWindowUpdate i (word_of_nat t)]" "hconn s"]
      le body_written(2) by simp
  with body_written show ?thesis
    by (auto simp: handleData_written_def Let_def h2_simps split: if_splits)
qed (use le in \<open>auto simp: h2_simps handleData_failed_def\<close>)

text \<open>C29: the client never gives back more connection window than it has consumed: the WINDOW_UPDATE increments it
  sent on the connection are at most the opening one plus the DATA bytes it received, those still being
  delivered not counted, in any interleaving of fewer than 2^31 calls.\<close>

theorem h2_window_never_overcredited:
  assumes "h2_reach wr enc p s" "length (callers s) < 2 ^ 31"
  shows "window_credit (sent (hconn s)) + pending_credit (rloop s)
     \<le> unat (h2ConnectionWindowUpdate p) + data_received (log s)"
  using assms
proof (induction rule: h2_reach.induct)
  case (opened c)
  then show ?case
    by (auto simp: newH2ClientConn_def empty_conn_def started_def window_credit_def Let_def
        split: sum.splits prod.splits if_splits dest!: write_frame_InrD)
next
  case (stepped s s')
  have b: "length (callers s) < 2 ^ 31" using h2_step_callers [OF stepped(2)] stepped(4) by simp
  note reg = h2_invD(1) [OF h2_reach_inv [OF stepped(1) b]]
  have "i \<noteq> 0" if "rloop s = Writing i ob r t e" for i ob r t e
    using handle_id [OF reg b registryD(8) [OF reg that]] by auto
  from credit_step [OF stepped(2) this stepped(3) [OF b]] show ?case .
qed

end
