(* ===== verification/H2_Runs.thy ===== *)
theory H2_Runs
  imports H2_Invariants
begin

text \<open>
  Concrete runs of the HTTP/2 client connection, at which the theorems of the invariant apply, and
  two behaviours of the read loop that the runs exhibit: a response ended by DATA before its
  HEADERS, and trailing HEADERS without a status.
\<close>

section \<open>A run\<close>

definition run_profile :: Profile where
  "run_profile = \<lparr>Name = ''p'', Aliases = [], Description = [], ClientHello = ''chrome'', UserAgent = ''u'',
     ALPN = [''h2''], Headers = \<lparr>Order = [], SetHeaders = []\<rparr>, HTTP2 = None\<rparr>"

definition run_request :: Request where
  "run_request = \<lparr>Method = ''GET'', URL_Scheme = ''https'', URL_Host = ''a.io'', URL_RequestURI = ''/'',
     Host = [], ReqHeader = [], Body = None, ReqContentLength = 0\<rparr>"

definition run_framer :: framer where
  "run_framer before f = None"

definition run_encoder :: encoder where
  "run_encoder written f = Inr []"

definition run_conn :: h2ClientConn where
  "run_conn = \<lparr>nextID = 1, streams = [], cc_closed = False, objs = [],
     sent = [FPreface, FSettings defaultH2Settings, FWindowUpdate 0 1073741824], conn_closed = False\<rparr>"

definition run_conn1 :: h2ClientConn where
  "run_conn1 = run_conn\<lparr>nextID := 3, streams := [(1, 0)], objs := [new_stream run_request],
     sent := sent run_conn @ [FHeaders 1 [] True]\<rparr>"

definition run_sent :: h2sys where
  "run_sent = \<lparr>hconn = run_conn1, rloop = Reading, callers = [Waiting 1 0], log = [Opened 1]\<rparr>"

lemma run_opened: "newH2ClientConn run_framer run_profile = (Inr (), run_conn)"
  by (simp add: newH2ClientConn_def h2Settings_def h2ConnectionWindowUpdate_def run_profile_def
      write_frame_def run_framer_def empty_conn_def run_conn_def)

lemma run_block: "headerBlock run_encoder run_request run_profile n = Inr []"
proof -
  have "write_fields run_encoder w fs b = Inr b" for w fs b
    by (induction fs arbitrary: w) (simp_all add: run_encoder_def)
  then show ?thesis by (simp add: headerBlock_def)
qed

lemma run_start: "start_request run_framer run_encoder run_profile run_request run_conn = (Inr 1, run_conn1)"
  using run_block
  by (simp add: start_request_def readRequestBody_def run_request_def writeRequest_def Let_def write_frame_def
      run_framer_def write_data.simps run_conn1_def run_conn_def)

lemma run_reach_sent: "h2_reach run_framer run_encoder run_profile run_sent"
proof -
  have "h2_step run_framer run_encoder run_profile (started run_conn)
      ((started run_conn)\<lparr>hconn := run_conn1, callers := callers (started run_conn) @ [Waiting 1 (length (objs (hconn (started run_conn))))],
        log := log (started run_conn) @ [Opened 1]\<rparr>)"
    by (rule h2_step.start_sent [where req = run_request]) (simp add: started_def run_start)
  then show ?thesis
    using h2_reach.stepped [OF h2_reach.opened [OF run_opened]] by (simp add: started_def run_sent_def run_conn_def)
qed

definition run_response :: Response where
  "run_response = \<lparr>StatusCode = 200, Status = ''200 OK'', Proto = ''HTTP/2.0'', RespHeader = [],
     RespContentLength = - 1, Uncompressed = False, RespTransferEncoding = [], RespClose = False\<rparr>"

lemma run_response_of: "response_of [('':status'', ''200'')] = Some run_response"
proof -
  have "response_of [('':status'', ''200'')] = Some \<lparr>StatusCode = 200, Status = ''200 OK'', Proto = ''HTTP/2.0'',
      RespHeader = [], RespContentLength = - 1, Uncompressed = False, RespTransferEncoding = [], RespClose = False\<rparr>" by code_simp
  then show ?thesis by (simp add: run_response_def)
qed

definition run_stream :: "Response option \<Rightarrow> h2Stream" where
  "run_stream r = (new_stream run_request)\<lparr>st_headers := r\<rparr>"

definition run_answered :: h2sys where
  "run_answered = \<lparr>hconn = run_conn1\<lparr>objs := [run_stream (Some run_response)]\<rparr>, rloop = Reading, callers = [Waiting 1 0],
     log = [Opened 1, Got (InHeaders 1 [('':status'', ''200'')] False)]\<rparr>"

definition run_returned :: h2sys where
  "run_returned = run_answered\<lparr>hconn := run_conn1\<lparr>objs := [run_stream None]\<rparr>, callers := [Returned 1 0 (Inr run_response)]\<rparr>"

lemma run_reach_answered: "h2_reach run_framer run_encoder run_profile run_answered"
proof -
  have "h2_step run_framer run_encoder run_profile run_sent
     (run_sent\<lparr>hconn := run_conn1\<lparr>objs := [run_stream (Some run_response)]\<rparr>, rloop := Reading,
        log := log run_sent @ [Got (InHeaders 1 [('':status'', ''200'')] False)]\<rparr>)"
    by (rule h2_step.frame)
       (simp_all add: run_sent_def read_frame_def handleHeaders_def stream_of_def run_response_of run_conn1_def
          update_obj_def deliver_response_def new_stream_def run_stream_def)
  from h2_reach.stepped [OF run_reach_sent this] show ?thesis by (simp add: run_sent_def run_answered_def)
qed

lemma run_reach_returned: "h2_reach run_framer run_encoder run_profile run_returned"
proof -
  have "h2_step run_framer run_encoder run_profile run_answered
     (run_answered\<lparr>hconn := update_obj 0 (\<lambda>st. st\<lparr>st_headers := None\<rparr>) (hconn run_answered),
        callers := (callers run_answered)[0 := Returned 1 0 (Inr run_response)]\<rparr>)"
    by (rule h2_step.take_headers) (simp_all add: run_answered_def run_stream_def)
  from h2_reach.stepped [OF run_reach_answered this] show ?thesis
    by (simp add: run_answered_def run_returned_def update_obj_def run_stream_def run_conn1_def new_stream_def)
qed

section \<open>The invariant's theorems at this run\<close>

theorem stream_ids_unique_witness:
  "distinct (map fst (handles (callers run_returned))) \<and> callers run_returned = [Returned 1 0 (Inr run_response)]"
  using stream_ids_unique [OF run_reach_returned] by (simp add: run_returned_def)

theorem h2_no_crosstalk_witness:
  "run_response \<in> responses_to 1 (log run_returned) \<and> st_body (objs (hconn run_returned) ! 0) = data_of 1 (log run_returned)"
  using h2_no_crosstalk [OF run_reach_returned, of 1 0 run_response]
  by (simp add: run_returned_def run_answered_def run_conn1_def)

theorem h2_window_never_overcredited_witness:
  "window_credit (sent (hconn run_returned)) \<le> unat (h2ConnectionWindowUpdate run_profile) + data_received (log run_returned)"
  using h2_window_never_overcredited [OF run_reach_returned] by (simp add: run_returned_def run_answered_def)

text \<open>The same connection after the server's GOAWAY: the waiting caller has an error to take.\<close>

definition run_gone :: h2sys where
  "run_gone = run_sent\<lparr>hconn := failAll (Errorf ''http/2 goaway: NO_ERROR'') run_conn1,
     log := [Opened 1, Got (InGoAway ''NO_ERROR'')]\<rparr>"

theorem h2_caller_can_return_witness:
  "Waiting 1 0 \<in> set (callers run_gone) \<and> cc_closed (hconn run_gone)
     \<and> (\<exists>e. st_errs (objs (hconn run_gone) ! 0) = Some e)"
proof -
  have "h2_step run_framer run_encoder run_profile run_sent
     (run_sent\<lparr>hconn := failAll (Errorf ''http/2 goaway: NO_ERROR'') run_conn1, rloop := Reading,
        log := log run_sent @ [Got (InGoAway ''NO_ERROR'')]\<rparr>)"
    by (rule h2_step.frame) (simp_all add: run_sent_def read_frame_def)
  from h2_reach.stepped [OF run_reach_sent this] have r: "h2_reach run_framer run_encoder run_profile run_gone"
    by (simp add: run_sent_def run_gone_def)
  have w: "Waiting 1 0 \<in> set (callers run_gone)" "length (callers run_gone) < 2 ^ 31" "cc_closed (hconn run_gone)"
    by (simp_all add: run_gone_def run_sent_def h2_simps)
  have n: "st_headers (objs (hconn run_gone) ! 0) = None"
    by (simp add: run_gone_def run_sent_def failAll_def fail_streams_def update_obj_def run_conn1_def new_stream_def)
  have "\<not> ended_by_data 1 (log run_gone)" by (simp add: run_gone_def ended_by_data_def)
  with h2_caller_can_return [OF r w(2,1) disjI1 [OF w(3)]] n w show ?thesis by blast
qed

section \<open>Two ways to lose a response\<close>

text \<open>A server that ends a stream with DATA before any HEADERS leaves the caller of \<open>RoundTrip\<close> waiting
  for good: the connection is open, the stream is unregistered, and there is neither a response nor an
  error to take.\<close>

theorem data_before_headers_strands:
  "\<exists>s. h2_reach run_framer run_encoder run_profile s \<and> callers s = [Waiting 1 0] \<and> rloop s = Reading
     \<and> \<not> cc_closed (hconn s) \<and> stream_of (hconn s) 1 = None
     \<and> st_headers (objs (hconn s) ! 0) = None \<and> st_errs (objs (hconn s) ! 0) = None"
proof -
  let ?s = "run_sent\<lparr>hconn := removeStream 1 run_conn1, rloop := Reading, log := log run_sent @ [Got (InData 1 [] True)]\<rparr>"
  have "h2_step run_framer run_encoder run_profile run_sent ?s"
    by (rule h2_step.frame)
       (simp_all add: run_sent_def read_frame_def handleData_begin_def stream_of_def run_conn1_def endStream_def)
  from h2_reach.stepped [OF run_reach_sent this] show ?thesis
    by (intro exI [of _ ?s])
       (simp add: run_sent_def removeStream_def stream_of_def run_conn1_def update_obj_def delete_stream_def run_conn_def
          close_write_def new_stream_def)
qed

text \<open>C40: trailers break the body: a second HEADERS frame, which carries no \<open>:status\<close>, closes the body pipe with
  an error instead of an end of file, and does not end the stream.\<close>

theorem trailers_abort_body:
  "('':status'' \<notin> fst ` set hfs \<and> stream_of c i = Some ob \<and> ob < length (objs c) \<and> st_wclosed (objs c ! ob) = None) \<longrightarrow>
   (let c' = handleHeaders i hfs True c
    in st_wclosed (objs c' ! ob) = Some (Errorf ''http/2 response missing :status'')
       \<and> stream_of c' i = Some ob)"
proof
  assume a: "'':status'' \<notin> fst ` set hfs \<and> stream_of c i = Some ob \<and> ob < length (objs c) \<and> st_wclosed (objs c ! ob) = None"
  have "fst (fold collect_field hfs (0, h)) = 0" if "'':status'' \<notin> fst ` set hfs" for h
    using that
  proof (induction hfs arbitrary: h)
    case (Cons f fs)
    then show ?case by (cases f) (auto simp: collect_field_def)
  qed simp
  with a have "response_of hfs = None" by (simp add: response_of_def case_prod_beta)
  with a show "let c' = handleHeaders i hfs True c
    in st_wclosed (objs c' ! ob) = Some (Errorf ''http/2 response missing :status'') \<and> stream_of c' i = Some ob"
    by (simp add: handleHeaders_def h2_simps Let_def)
qed

theorem trailers_abort_body_witness:
  "st_wclosed (objs (handleHeaders 1 [(''grpc-status'', ''0'')] True run_conn1) ! 0)
     = Some (Errorf ''http/2 response missing :status'')"
  using trailers_abort_body [of "[(''grpc-status'', ''0'')]" run_conn1 1 0]
  by (simp add: run_conn1_def stream_of_def new_stream_def Let_def)

section \<open>Requests on the wire\<close>

lemma run_write: "\<exists>c. writeRequest run_framer run_encoder run_profile run_request [7, 8] 0 run_conn = (Inr 1, c)"
  by (simp add: writeRequest_def run_block write_frame_def run_framer_def write_data.simps run_conn_def)

theorem writeRequest_wire_witness:
  "\<exists>c' cs. writeRequest run_framer run_encoder run_profile run_request [7, 8] 0 run_conn = (Inr 1, c')
     \<and> sent c' = sent run_conn @ FHeaders 1 [] False # data_frames 1 cs \<and> concat cs = [7, 8]"
proof -
  obtain c' where c: "writeRequest run_framer run_encoder run_profile run_request [7, 8] 0 run_conn = (Inr 1, c')"
    using run_write by blast
  from writeRequest_wire [OF c] show ?thesis by (auto simp: c run_block)
qed

text \<open>A framer whose second write of the request fails: HEADERS go out, the DATA frame does not.\<close>

definition data_fails :: framer where
  "data_fails before f = (case f of FData _ _ _ \<Rightarrow> Some EOF | _ \<Rightarrow> None)"

theorem writeRequest_failed_witness:
  "\<exists>e c'. writeRequest data_fails run_encoder run_profile run_request [7] 0 run_conn = (Inl e, c')
     \<and> stream_of c' 1 = None"
proof -
  have "\<exists>e c'. writeRequest data_fails run_encoder run_profile run_request [7] 0 run_conn = (Inl e, c')"
    by (simp add: writeRequest_def run_block write_frame_def data_fails_def write_data.simps run_conn_def)
  then obtain e c' where c: "writeRequest data_fails run_encoder run_profile run_request [7] 0 run_conn = (Inl e, c')" by blast
  from writeRequest_failed [OF c, of 1] c show ?thesis by (simp add: run_conn_def)
qed

end
