(* ===== verification/Connection_Pool.thy ===== *)
theory Connection_Pool
  imports Round_Tripper H2_Runs
begin

text \<open>
  The connection pool under concurrent requests: a step relation whose steps are the sections of
  \<open>cachedH2\<close>, \<open>adoptH2\<close>, \<open>evict\<close> and \<open>Close\<close> that run under the pool's mutex, interleaved with the
  connections' own steps, and the invariant that no connection is lost while it is open.
\<close>

section \<open>A connection's own steps and its end\<close>

text \<open>Every step of a connection keeps both of its flags, or sets both.\<close>

definition shut_with :: "h2ClientConn \<Rightarrow> h2ClientConn \<Rightarrow> bool" where
  "shut_with c c' \<longleftrightarrow> cc_closed c' = cc_closed c \<and> conn_closed c' = conn_closed c \<or> cc_closed c' \<and> conn_closed c'"

lemma conn_closed_keeps [h2_simps]:
  "conn_closed (removeStream i c) = conn_closed c" "conn_closed (failStream i e c) = conn_closed c"
  by (simp_all add: removeStream_def failStream_def h2_simps split: option.split)

lemma conn_closed_writeControl [h2_simps]: "conn_closed (writeControl wr fs c) = conn_closed c"
  using writeControl_prefix [of wr fs c] by auto

lemma shut_with_refl [simp]: "shut_with c c"
  by (simp add: shut_with_def)

lemma shut_with_writeRequest:
  assumes "writeRequest wr enc p req body ob c = (r, c')"
  shows "shut_with c c'"
proof (cases "cc_closed c \<or> (\<exists>e. headerBlock enc req p (length body) = Inl e)")
  case True
  with assms show ?thesis by (auto simp: writeRequest_def Let_def shut_with_def h2_simps split: if_splits)
next
  case False
  then obtain block where b: "headerBlock enc req p (length body) = Inr block"
    by (cases "headerBlock enc req p (length body)") auto
  let ?c = "c\<lparr>nextID := nextID c + 2, streams := AList.update (nextID c) ob (streams c)\<rparr>"
  let ?h = "FHeaders (nextID c) block (length body = 0)"
  from write_frame_cases [of wr ?h ?c] show ?thesis
  proof
    assume w: "write_frame wr ?h ?c = (Inr (), ?c\<lparr>sent := sent ?c @ [?h]\<rparr>)"
    obtain r2 c2 where d: "write_data wr (nextID c) body (?c\<lparr>sent := sent ?c @ [?h]\<rparr>) = (r2, c2)" by force
    from write_data_keeps [OF d] assms False b w d show ?thesis
      by (auto simp: writeRequest_def Let_def shut_with_def h2_simps split: sum.splits)
  qed (use assms False b in \<open>auto simp: writeRequest_def Let_def shut_with_def h2_simps\<close>)
qed

lemma shut_with_start: "start_request wr enc p req c = (r, c') \<Longrightarrow> shut_with c c'"
  using shut_with_writeRequest [of wr enc p req _ "length (objs c)" "c\<lparr>objs := objs c @ [new_stream req]\<rparr>" r c']
  by (auto simp: start_request_def shut_with_def split: sum.splits)

lemma shut_with_read_frame: "read_frame wr f c = (c', r) \<Longrightarrow> shut_with c c'"
  by (cases f) (auto simp: read_frame_def shut_with_def handleHeaders_def handleData_begin_def endStream_def Let_def
      h2_simps split: option.splits if_splits)

lemma h2_step_shut:
  "h2_step wr enc p s s' \<Longrightarrow> shut_with (hconn s) (hconn s')"
  by (erule h2_stepE)
     (auto dest: shut_with_start shut_with_read_frame
       simp: Close_eq h2Body_Close_def handleData_written_def handleData_failed_def endStream_def Let_def shut_with_def h2_simps
       split: if_splits)

lemma shut_with_Close: "shut_with c (Close c)" "(cc_closed c \<longrightarrow> conn_closed c) \<Longrightarrow> conn_closed (Close c)"
  by (auto simp: Close_eq shut_with_def h2_simps)

section \<open>The pool's steps\<close>

text \<open>
  \<open>dialed\<close> is the host each connection was dialed for. \<open>adopting\<close> holds the connections that
  \<open>newH2ClientConn\<close> has opened and that are not adopted yet, \<open>closing\<close> those that \<open>evict\<close> has taken out of the
  pool and not closed yet. \<open>served\<close> logs the connection each lookup or adoption handed to a request.
\<close>

record pool_sys =
  rts :: rt_state
  dialed :: "string list"
  adopting :: "nat set"
  closing :: "nat set"
  served :: "(string \<times> nat) list"

definition pool_start :: pool_sys where
  "pool_start = \<lparr>rts = \<lparr>pool = [], conns = []\<rparr>, dialed = [], adopting = {}, closing = {}, served = []\<rparr>"

inductive pool_step :: "framer \<Rightarrow> encoder \<Rightarrow> Profile \<Rightarrow> pool_sys \<Rightarrow> pool_sys \<Rightarrow> bool"
  for wr :: framer and enc :: encoder and p :: Profile where
  opened: "open_h2 wr p (rts s) = (Inr i, rt) \<Longrightarrow>
     pool_step wr enc p s (s\<lparr>rts := rt, dialed := dialed s @ [host], adopting := insert i (adopting s)\<rparr>)"
| adopted: "i \<in> adopting s \<Longrightarrow> host = dialed s ! i \<Longrightarrow> adopt_locked host i (rts s) = (j, rt) \<Longrightarrow>
     pool_step wr enc p s (s\<lparr>rts := rt, adopting := adopting s - {i}, served := served s @ [(host, j)]\<rparr>)"
| hit: "cachedH2 host (rts s) = (Some i, rt) \<Longrightarrow>
     pool_step wr enc p s (s\<lparr>rts := rt, served := served s @ [(host, i)]\<rparr>)"
| miss: "cachedH2 host (rts s) = (None, rt) \<Longrightarrow> pool_step wr enc p s (s\<lparr>rts := rt\<rparr>)"
| evicted: "evict_locked host (rts s) = (Some i, rt) \<Longrightarrow>
     pool_step wr enc p s (s\<lparr>rts := rt, closing := insert i (closing s)\<rparr>)"
| closed: "i \<in> closing s \<Longrightarrow>
     pool_step wr enc p s (s\<lparr>rts := close_conn i (rts s), closing := closing s - {i}\<rparr>)"
| conn: "i < length (conns (rts s)) \<Longrightarrow> h2_step wr enc p h h' \<Longrightarrow> hconn h = conns (rts s) ! i \<Longrightarrow>
     pool_step wr enc p s (s\<lparr>rts := (rts s)\<lparr>conns := (conns (rts s))[i := hconn h']\<rparr>\<rparr>)"
| close_pool: "pool_step wr enc p s (s\<lparr>rts := RoundTripper_Close (rts s)\<rparr>)"

inductive pool_reach :: "framer \<Rightarrow> encoder \<Rightarrow> Profile \<Rightarrow> pool_sys \<Rightarrow> bool"
  for wr :: framer and enc :: encoder and p :: Profile where
  start: "pool_reach wr enc p pool_start"
| stepped: "pool_reach wr enc p s \<Longrightarrow> pool_step wr enc p s s' \<Longrightarrow> pool_reach wr enc p s'"

inductive_cases pool_stepE: "pool_step wr enc p s s'"

section \<open>Effects of the pool's operations\<close>

lemma Close_idem [simp]: "Close (Close c) = Close c"
  by (simp add: Close_eq h2_simps)

lemma close_conn_simps [simp]:
  "pool (close_conn i rt) = pool rt" "length (conns (close_conn i rt)) = length (conns rt)"
  by (simp_all add: close_conn_def)

lemma conns_close_conn:
  "conns (close_conn i rt) ! j = (if j = i \<and> i < length (conns rt) then Close (conns rt ! j) else conns rt ! j)"
  by (cases "i < length (conns rt)") (auto simp: close_conn_def list_update_beyond nth_list_update)

lemma close_fold:
  fixes ps :: "(string \<times> nat) list" and rt :: rt_state
  defines "rt' \<equiv> fold (\<lambda>(host, i) rt. (close_conn i rt)\<lparr>pool := AList.delete host (pool rt)\<rparr>) ps rt"
  shows "length (conns rt') = length (conns rt)"
    and "pool rt' = filter (\<lambda>(h, _). h \<notin> fst ` set ps) (pool rt)"
    and "j < length (conns rt) \<Longrightarrow> conns rt' ! j = (if j \<in> snd ` set ps then Close (conns rt ! j) else conns rt ! j)"
  unfolding rt'_def
proof (induction ps arbitrary: rt)
  case (Cons x ps)
  obtain h i where x: "x = (h, i)" by force
  {
    case 1
    show ?case using Cons.IH(1) by (simp add: x)
  next
    case 2
    show ?case by (simp add: x Cons.IH(2)) (auto simp: AList.delete_eq intro!: filter_cong)
  next
    case 3
    then show ?case using Cons.IH(3) [of "(close_conn i rt)\<lparr>pool := AList.delete h (pool rt)\<rparr>"]
      by (auto simp: x conns_close_conn)
  }
qed simp_all

lemma RoundTripper_Close_simps:
  "length (conns (RoundTripper_Close rt)) = length (conns rt)" "pool (RoundTripper_Close rt) = []"
  "j < length (conns rt) \<Longrightarrow>
   conns (RoundTripper_Close rt) ! j = (if j \<in> snd ` set (pool rt) then Close (conns rt ! j) else conns rt ! j)"
  using close_fold [where ps = "pool rt" and rt = rt]
  by (auto simp: RoundTripper_Close_def filter_empty_conv image_iff Bex_def split: prod.split)

section \<open>The invariant\<close>

definition held :: "pool_sys \<Rightarrow> nat set" where
  "held s = snd ` set (pool (rts s)) \<union> adopting s \<union> closing s"

definition pool_inv :: "pool_sys \<Rightarrow> bool" where
  "pool_inv s \<longleftrightarrow>
     length (dialed s) = length (conns (rts s)) \<and> distinct (map fst (pool (rts s)))
     \<and> (\<forall>(h, i)\<in>set (pool (rts s)) \<union> set (served s). i < length (dialed s) \<and> dialed s ! i = h)
     \<and> adopting s \<union> closing s \<subseteq> {..<length (dialed s)}
     \<and> (\<forall>i < length (dialed s). (cc_closed (conns (rts s) ! i) \<longrightarrow> conn_closed (conns (rts s) ! i))
          \<and> (i \<in> held s \<or> conn_closed (conns (rts s) ! i)))"

lemma pool_invD:
  assumes "pool_inv s"
  shows "length (dialed s) = length (conns (rts s))" "distinct (map fst (pool (rts s)))"
    and "(h, i) \<in> set (pool (rts s)) \<Longrightarrow> i < length (dialed s) \<and> dialed s ! i = h"
    and "(h, i) \<in> set (served s) \<Longrightarrow> i < length (dialed s) \<and> dialed s ! i = h"
    and "i \<in> adopting s \<Longrightarrow> i < length (dialed s)" "i \<in> closing s \<Longrightarrow> i < length (dialed s)"
    and "i < length (dialed s) \<Longrightarrow> cc_closed (conns (rts s) ! i) \<Longrightarrow> conn_closed (conns (rts s) ! i)"
    and "i < length (dialed s) \<Longrightarrow> i \<in> held s \<or> conn_closed (conns (rts s) ! i)"
  using assms unfolding pool_inv_def by blast+

lemma pool_inv_start: "pool_inv pool_start"
  by (simp add: pool_inv_def pool_start_def)

text \<open>Every step but \<open>opened\<close> keeps the list of connections; what it takes out of somebody's hands it has closed.\<close>

lemma pool_inv_step:
  assumes inv: "pool_inv s"
    and keep: "dialed s' = dialed s" "length (conns (rts s')) = length (conns (rts s))"
    and shut: "\<And>i. i < length (dialed s) \<Longrightarrow> shut_with (conns (rts s) ! i) (conns (rts s') ! i)"
    and left: "\<And>i. i \<in> held s \<Longrightarrow> i < length (dialed s) \<Longrightarrow> i \<notin> held s' \<Longrightarrow> conn_closed (conns (rts s') ! i)"
    and pl: "distinct (map fst (pool (rts s')))"
      "\<And>h i. (h, i) \<in> set (pool (rts s')) \<Longrightarrow> i < length (dialed s) \<and> dialed s ! i = h"
    and sv: "\<And>h i. (h, i) \<in> set (served s') \<Longrightarrow> i < length (dialed s) \<and> dialed s ! i = h"
    and hands: "adopting s' \<union> closing s' \<subseteq> {..<length (dialed s)}"
  shows "pool_inv s'"
proof -
  have "(cc_closed (conns (rts s') ! i) \<longrightarrow> conn_closed (conns (rts s') ! i)) \<and> (i \<in> held s' \<or> conn_closed (conns (rts s') ! i))"
    if i: "i < length (dialed s)" for i
    using pool_invD(7,8) [OF inv i] shut [OF i] left [of i] i unfolding shut_with_def by metis
  moreover have "\<forall>(h, i)\<in>set (pool (rts s')) \<union> set (served s'). i < length (dialed s) \<and> dialed s ! i = h"
    using pl(2) sv by blast
  ultimately show ?thesis using pool_invD(1) [OF inv] keep pl(1) hands unfolding pool_inv_def keep by simp
qed

lemma delete_set: "set (AList.delete k al) = {x \<in> set al. fst x \<noteq> k}"
  by (auto simp: AList.delete_eq)

lemma update_set: "set (AList.update k v al) \<subseteq> insert (k, v) (set al)"
  by (induction al) auto

lemma update_keeps: "distinct (map fst al) \<Longrightarrow> set (AList.update k v al) = insert (k, v) {x \<in> set al. fst x \<noteq> k}"
  by (induction al) (auto simp: image_iff)

lemma key_unique: "distinct (map fst al) \<Longrightarrow> (k, v) \<in> set al \<Longrightarrow> map_of al k = Some w \<Longrightarrow> v = w"
  by simp

lemma cachedH2_inv:
  assumes inv: "pool_inv s" and c: "cachedH2 host (rts s) = (r, rt)"
    and s': "s' = s\<lparr>rts := rt\<rparr> \<and> r = None \<or> (\<exists>i. r = Some i \<and> s' = s\<lparr>rts := rt, served := served s @ [(host, i)]\<rparr>)"
  shows "pool_inv s'"
proof (cases "map_of (pool (rts s)) host")
  case None
  with c s' have "s' = s" by (auto simp: cachedH2_def)
  with inv show ?thesis by simp
next
  case (Some i)
  note pd = pool_invD [OF inv]
  have hi: "(host, i) \<in> set (pool (rts s))" using Some by (rule map_of_SomeD)
  from pd(3) [OF hi] have i: "i < length (dialed s)" "dialed s ! i = host" by simp_all
  show ?thesis
  proof (cases "CanTakeNewRequest (conns (rts s) ! i)")
    case True
    with c Some s' have "s' = s\<lparr>served := served s @ [(host, i)]\<rparr>" by (auto simp: cachedH2_def)
    with i show ?thesis using pd(3,4,5,6) pd(2)
      by (intro pool_inv_step [OF inv]) (auto simp: held_def)
  next
    case False
    with c Some s' have s'': "s' = s\<lparr>rts := close_conn i ((rts s)\<lparr>pool := AList.delete host (pool (rts s))\<rparr>)\<rparr>"
      by (auto simp: cachedH2_def)
    show ?thesis
    proof (rule pool_inv_step [OF inv])
      fix j assume j: "j \<in> held s" "j < length (dialed s)" "j \<notin> held s'"
      then have "(host, j) \<in> set (pool (rts s))" by (auto simp: held_def s'' delete_set)
      then have "j = i" using key_unique [OF pd(2) _ Some] by blast
      with i pd(1) pd(7) [OF i(1)] show "conn_closed (conns (rts s') ! j)"
        by (simp add: s'' conns_close_conn shut_with_Close)
    qed (use pd i in \<open>auto simp: s'' conns_close_conn shut_with_Close delete_set distinct_delete\<close>)
  qed
qed

lemma adopt_inv:
  assumes inv: "pool_inv s" and a: "i \<in> adopting s" "host = dialed s ! i" "adopt_locked host i (rts s) = (j, rt)"
  shows "pool_inv (s\<lparr>rts := rt, adopting := adopting s - {i}, served := served s @ [(host, j)]\<rparr>)"
    (is "pool_inv ?s")
proof -
  note pd = pool_invD [OF inv]
  from pd(5) [OF a(1)] have i: "i < length (dialed s)" "dialed s ! i = host" using a(2) by simp_all
  show ?thesis
  proof (cases "map_of (pool (rts s)) host")
    case None
    with a(3) have r: "j = i" "rt = (rts s)\<lparr>pool := AList.update host i (pool (rts s))\<rparr>" by (auto simp: adopt_locked_def)
    from None have nk: "host \<notin> fst ` set (pool (rts s))" by (simp add: map_of_eq_None_iff)
    show ?thesis
      by (rule pool_inv_step [OF inv])
         (use pd i nk in \<open>auto simp: r held_def update_keeps distinct_update image_iff\<close>)
  next
    case (Some x)
    have hx: "(host, x) \<in> set (pool (rts s))" using Some by (rule map_of_SomeD)
    from pd(3) [OF hx] have x: "x < length (dialed s)" "dialed s ! x = host" by simp_all
    show ?thesis
    proof (cases "CanTakeNewRequest (conns (rts s) ! x)")
      case True
      with a(3) Some have r: "j = x" "rt = close_conn i (rts s)" by (auto simp: adopt_locked_def)
      show ?thesis
      proof (rule pool_inv_step [OF inv])
        fix k assume k: "k \<in> held s" "k < length (dialed s)" "k \<notin> held ?s"
        then have "k = i" by (auto simp: held_def r)
        with i pd(1) pd(7) [OF i(1)] show "conn_closed (conns (rts ?s) ! k)"
          by (simp add: r conns_close_conn shut_with_Close)
      qed (use pd i x in \<open>auto simp: r conns_close_conn shut_with_Close\<close>)
    next
      case False
      with a(3) Some have r: "j = i"
        "rt = (close_conn x (rts s))\<lparr>pool := AList.update host i (pool (rts s))\<rparr>" by (auto simp: adopt_locked_def)
      show ?thesis
      proof (rule pool_inv_step [OF inv])
        fix k assume k: "k \<in> held s" "k < length (dialed s)" "k \<notin> held ?s"
        then have "(host, k) \<in> set (pool (rts s))" by (auto simp: held_def r update_keeps [OF pd(2)])
        then have "k = x" using key_unique [OF pd(2) _ Some] by blast
        with x pd(1) pd(7) [OF x(1)] show "conn_closed (conns (rts ?s) ! k)"
          by (simp add: r conns_close_conn shut_with_Close)
      qed (use pd i in \<open>auto simp: r conns_close_conn shut_with_Close update_keeps distinct_update\<close>)
    qed
  qed
qed

lemma opened_inv:
  assumes inv: "pool_inv s" and o: "open_h2 wr p (rts s) = (Inr i, rt)"
  shows "pool_inv (s\<lparr>rts := rt, dialed := dialed s @ [host], adopting := insert i (adopting s)\<rparr>)"
proof -
  note pd = pool_invD [OF inv]
  from o obtain c where c: "newH2ClientConn wr p = (Inr (), c)" "i = length (conns (rts s))"
    "rt = (rts s)\<lparr>conns := conns (rts s) @ [c]\<rparr>"
    by (auto simp: open_h2_def split: sum.splits prod.splits)
  let ?s = "s\<lparr>rts := rt, dialed := dialed s @ [host], adopting := insert i (adopting s)\<rparr>"
  have "\<forall>(h, x)\<in>set (pool (rts ?s)) \<union> set (served ?s). x < length (dialed ?s) \<and> dialed ?s ! x = h"
    using pd(3,4) by (fastforce simp: c nth_append)
  moreover have "adopting ?s \<union> closing ?s \<subseteq> {..<length (dialed ?s)}"
    using pd(1,5,6) by (auto simp: c less_Suc_eq)
  moreover have "(cc_closed (conns (rts ?s) ! x) \<longrightarrow> conn_closed (conns (rts ?s) ! x))
      \<and> (x \<in> held ?s \<or> conn_closed (conns (rts ?s) ! x))" if "x < length (dialed ?s)" for x
    using that pd(7,8) [of x] pd(1) Opening_simps [OF c(1)] by (auto simp: c held_def nth_append less_Suc_eq)
  ultimately show ?thesis using pd(1,2) unfolding pool_inv_def by (simp add: c)
qed

lemma evicted_inv:
  assumes inv: "pool_inv s" and e: "evict_locked host (rts s) = (Some i, rt)"
  shows "pool_inv (s\<lparr>rts := rt, closing := insert i (closing s)\<rparr>)" (is "pool_inv ?s")
proof -
  note pd = pool_invD [OF inv]
  from e have m: "map_of (pool (rts s)) host = Some i" "rt = (rts s)\<lparr>pool := AList.delete host (pool (rts s))\<rparr>"
    by (auto simp: evict_locked_def split: option.splits)
  from pd(3) [OF map_of_SomeD [OF m(1)]] have i: "i < length (dialed s)" by simp
  show ?thesis
  proof (rule pool_inv_step [OF inv])
    fix k assume k: "k \<in> held s" "k < length (dialed s)" "k \<notin> held ?s"
    then have "(host, k) \<in> set (pool (rts s))" by (auto simp: held_def m delete_set)
    then have "k = i" using key_unique [OF pd(2) _ m(1)] by blast
    with k(3) show "conn_closed (conns (rts ?s) ! k)" by (simp add: held_def)
  qed (use pd i in \<open>auto simp: m delete_set distinct_delete\<close>)
qed

lemma closed_inv:
  assumes inv: "pool_inv s" and i: "i \<in> closing s"
  shows "pool_inv (s\<lparr>rts := close_conn i (rts s), closing := closing s - {i}\<rparr>)" (is "pool_inv ?s")
proof -
  note pd = pool_invD [OF inv]
  show ?thesis
  proof (rule pool_inv_step [OF inv])
    fix k assume k: "k \<in> held s" "k < length (dialed s)" "k \<notin> held ?s"
    then have "k = i" by (auto simp: held_def)
    with pd(1) pd(6) [OF i] pd(7) [of i] show "conn_closed (conns (rts ?s) ! k)"
      by (simp add: conns_close_conn shut_with_Close)
  qed (use pd in \<open>auto simp: conns_close_conn shut_with_Close\<close>)
qed

lemma conn_inv:
  assumes inv: "pool_inv s" and st: "h2_step wr enc p h h'" "hconn h = conns (rts s) ! i"
  shows "pool_inv (s\<lparr>rts := (rts s)\<lparr>conns := (conns (rts s))[i := hconn h']\<rparr>\<rparr>)" (is "pool_inv ?s")
proof (rule pool_inv_step [OF inv])
  fix x assume "x < length (dialed s)"
  then show "shut_with (conns (rts s) ! x) (conns (rts ?s) ! x)"
    using pool_invD(1) [OF inv] h2_step_shut [OF st(1)] st(2) by (cases "x = i") simp_all
qed (use pool_invD [OF inv] in \<open>auto simp: held_def\<close>)

lemma close_pool_inv:
  assumes inv: "pool_inv s"
  shows "pool_inv (s\<lparr>rts := RoundTripper_Close (rts s)\<rparr>)" (is "pool_inv ?s")
proof -
  note pd = pool_invD [OF inv]
  show ?thesis
  proof (rule pool_inv_step [OF inv])
    fix k assume k: "k \<in> held s" "k < length (dialed s)" "k \<notin> held ?s"
    then have "k \<in> snd ` set (pool (rts s))" by (auto simp: held_def)
    with k(2) pd(1) pd(7) [OF k(2)] show "conn_closed (conns (rts ?s) ! k)"
      by (simp add: RoundTripper_Close_simps shut_with_Close)
  qed (use pd in \<open>auto simp: RoundTripper_Close_simps shut_with_Close\<close>)
qed

lemma pool_step_inv:
  assumes "pool_step wr enc p s s'" and inv: "pool_inv s"
  shows "pool_inv s'"
  using assms(1)
proof cases
  case (hit host rt i)
  show ?thesis by (rule cachedH2_inv [OF inv hit(2)]) (use hit(1) in simp)
next
  case (miss host rt)
  show ?thesis by (rule cachedH2_inv [OF inv miss(2)]) (use miss(1) in simp)
qed (simp_all add: opened_inv [OF inv] adopt_inv [OF inv] evicted_inv [OF inv] closed_inv [OF inv] conn_inv [OF inv]
       close_pool_inv [OF inv])

lemma pool_reach_inv: "pool_reach wr enc p s \<Longrightarrow> pool_inv s"
  by (induction rule: pool_reach.induct) (simp_all add: pool_inv_start pool_step_inv)

section \<open>What the pool guarantees\<close>

text \<open>C6: under every interleaving of requests, evictions, closes and the connections' own steps, a connection
  that is not closed is still in somebody's hands: pooled, about to be adopted, or about to be closed. A
  host has at most one pooled connection, and a request is only ever handed a connection that was
  dialed for its host.\<close>

theorem pool_no_leak:
  assumes "pool_reach wr enc p s"
  shows "(\<forall>i < length (conns (rts s)). conn_closed (conns (rts s) ! i) \<or> i \<in> snd ` set (pool (rts s)) \<union> adopting s \<union> closing s)
     \<and> distinct (map fst (pool (rts s)))
     \<and> (\<forall>h i. (h, i) \<in> set (served s) \<union> set (pool (rts s)) \<longrightarrow> i < length (conns (rts s)) \<and> dialed s ! i = h)"
  using pool_invD [OF pool_reach_inv [OF assms]] by (fastforce simp: held_def)

text \<open>Closing the round tripper empties the pool and closes every connection it held; one that a request
  was handed but that is no longer pooled is left alone.\<close>

theorem RoundTripper_Close_complete:
  assumes "pool_reach wr enc p s"
  shows "pool (RoundTripper_Close (rts s)) = []
     \<and> (\<forall>h i. (h, i) \<in> set (pool (rts s)) \<longrightarrow> conn_closed (conns (RoundTripper_Close (rts s)) ! i))
     \<and> (\<forall>i < length (conns (rts s)). i \<notin> snd ` set (pool (rts s)) \<longrightarrow>
          conns (RoundTripper_Close (rts s)) ! i = conns (rts s) ! i)"
proof -
  note pd = pool_invD [OF pool_reach_inv [OF assms]]
  have "conn_closed (conns (RoundTripper_Close (rts s)) ! i)" if "(h, i) \<in> set (pool (rts s))" for h i
  proof -
    from pd(3) [OF that] have i: "i < length (dialed s)" by simp
    have "i \<in> snd ` set (pool (rts s))" using that by force
    with i pd(1) pd(7) [OF i] show ?thesis by (simp add: RoundTripper_Close_simps shut_with_Close)
  qed
  then show ?thesis by (auto simp: RoundTripper_Close_simps)
qed

section \<open>A run of the pool\<close>

text \<open>Two requests for one host dial at the same time; the first adopts its connection, the second is handed
  that one and its own is closed.\<close>

definition pool_two :: pool_sys where
  "pool_two = \<lparr>rts = \<lparr>pool = [(''a.io'', 0)], conns = [run_conn, Close run_conn]\<rparr>, dialed = [''a.io'', ''a.io''],
     adopting = {}, closing = {}, served = [(''a.io'', 0), (''a.io'', 0)]\<rparr>"

lemma pool_two_reach: "pool_reach run_framer run_encoder run_profile pool_two"
proof -
  note step = pool_reach.stepped [where wr = run_framer and enc = run_encoder and p = run_profile]
  let ?s1 = "\<lparr>rts = \<lparr>pool = [], conns = [run_conn]\<rparr>, dialed = [''a.io''], adopting = {0}, closing = {}, served = []\<rparr>"
  let ?s2 = "\<lparr>rts = \<lparr>pool = [], conns = [run_conn, run_conn]\<rparr>, dialed = [''a.io'', ''a.io''], adopting = {1, 0},
     closing = {}, served = []\<rparr>"
  let ?s3 = "\<lparr>rts = \<lparr>pool = [(''a.io'', 0)], conns = [run_conn, run_conn]\<rparr>, dialed = [''a.io'', ''a.io''],
     adopting = {1}, closing = {}, served = [(''a.io'', 0)]\<rparr>"
  have "pool_step run_framer run_encoder run_profile pool_start ?s1"
    using pool_step.opened [of run_framer run_profile pool_start 0 "\<lparr>pool = [], conns = [run_conn]\<rparr>" _ "''a.io''"]
    by (simp add: pool_start_def open_h2_def run_opened)
  from step [OF pool_reach.start this] have r1: "pool_reach run_framer run_encoder run_profile ?s1" .
  have "pool_step run_framer run_encoder run_profile ?s1 ?s2"
    using pool_step.opened [of run_framer run_profile ?s1 1 "\<lparr>pool = [], conns = [run_conn, run_conn]\<rparr>" _ "''a.io''"]
    by (simp add: open_h2_def run_opened)
  from step [OF r1 this] have r2: "pool_reach run_framer run_encoder run_profile ?s2" .
  have "pool_step run_framer run_encoder run_profile ?s2 ?s3"
    using pool_step.adopted [of 0 ?s2 "''a.io''" 0 "\<lparr>pool = [(''a.io'', 0)], conns = [run_conn, run_conn]\<rparr>"]
    by (simp add: adopt_locked_def insert_Diff_if)
  from step [OF r2 this] have r3: "pool_reach run_framer run_encoder run_profile ?s3" .
  have "pool_step run_framer run_encoder run_profile ?s3 pool_two"
    using pool_step.adopted [of 1 ?s3 "''a.io''" 0 "\<lparr>pool = [(''a.io'', 0)], conns = [run_conn, Close run_conn]\<rparr>"]
    by (simp add: adopt_locked_def CanTakeNewRequest_def close_conn_def pool_two_def run_conn_def)
  from step [OF r3 this] show ?thesis .
qed

theorem pool_no_leak_witness:
  "(\<exists>i. conns (rts pool_two) ! 1 = i \<and> conn_closed i) \<and> dialed pool_two ! 0 = ''a.io''"
proof -
  from pool_no_leak [OF pool_two_reach] have
    l: "\<forall>i < length (conns (rts pool_two)). conn_closed (conns (rts pool_two) ! i) \<or> i \<in> snd ` set (pool (rts pool_two)) \<union> adopting pool_two \<union> closing pool_two"
    and d: "\<forall>h i. (h, i) \<in> set (served pool_two) \<union> set (pool (rts pool_two)) \<longrightarrow> i < length (conns (rts pool_two)) \<and> dialed pool_two ! i = h"
    by blast+
  show ?thesis using l [rule_format, of 1] d [rule_format, of "''a.io''" 0] by (simp add: pool_two_def)
qed

theorem RoundTripper_Close_complete_witness:
  "pool (RoundTripper_Close (rts pool_two)) = [] \<and> conn_closed (conns (RoundTripper_Close (rts pool_two)) ! 0)"
proof -
  from RoundTripper_Close_complete [OF pool_two_reach] have "pool (RoundTripper_Close (rts pool_two)) = []"
    and c: "\<forall>h i. (h, i) \<in> set (pool (rts pool_two)) \<longrightarrow> conn_closed (conns (RoundTripper_Close (rts pool_two)) ! i)"
    by blast+
  then show ?thesis using c [rule_format, of "''a.io''" 0] by (simp add: pool_two_def)
qed

section \<open>A request that is retried\<close>

definition run_dial_env :: dial_env where
  "run_dial_env = \<lparr>now = 0, ctx_deadline = None,
     DialContext = (\<lambda>a. Inr \<lparr>rx = [], rx_end = EOF, tx = [], writes_left = None\<rparr>), SetDeadline_fails = None\<rparr>"

definition run_dialer :: Dialer where
  "run_dialer = \<lparr>Timeout = 0, SkipVerify = False, UpstreamProxy = None, BypassList = []\<rparr>"

definition run_env :: rt_env where
  "run_env = \<lparr>h2_RoundTrip = (\<lambda>i c. (if i = 0 then Inl EOF else Inr run_response, c)), rt_dial = run_dial_env,
     rt_handshake = (\<lambda>i cfg s. Inr (s, ''h2'')), rt_clear = None, ReadResponse = (\<lambda>s. Inl EOF),
     rt_opened = (\<lambda>k. None), rt_peeked = []\<rparr>"

lemma run_dial: "\<exists>ev. Dial run_dial_env (\<lambda>i cfg s. Inr (s, ''h2'')) None run_dialer run_profile ''a.io'' =
  (Inr \<lparr>tls_stream = \<lparr>rx = [], rx_end = EOF, tx = [], writes_left = None\<rparr>, tls_deadline = None, conn_ALPN = ''h2''\<rparr>, ev)"
proof -
  have "fst (Dial run_dial_env (\<lambda>i cfg s. Inr (s, ''h2'')) None run_dialer run_profile ''a.io'') =
    Inr \<lparr>tls_stream = \<lparr>rx = [], rx_end = EOF, tx = [], writes_left = None\<rparr>, tls_deadline = None, conn_ALPN = ''h2''\<rparr>"
    by code_simp
  then show ?thesis by (metis prod.collapse)
qed

theorem roundTrip_attempts_witness:
  "\<exists>rt' a b. roundTrip run_env run_framer run_dialer run_profile run_request \<lparr>pool = [(''a.io'', 0)], conns = [run_conn]\<rparr>
     = (Inr run_response, rt', [a, b]) \<and> (\<exists>i e. a = OnH2 i (Inl e)) \<and> outcome b = Inr run_response"
proof -
  obtain ev where d: "Dial (rt_dial run_env) (rt_handshake run_env) (rt_clear run_env) run_dialer run_profile ''a.io'' =
    (Inr \<lparr>tls_stream = \<lparr>rx = [], rx_end = EOF, tx = [], writes_left = None\<rparr>, tls_deadline = None, conn_ALPN = ''h2''\<rparr>, ev)"
    using run_dial by (auto simp: run_env_def)
  have "\<exists>rt'. roundTrip run_env run_framer run_dialer run_profile run_request \<lparr>pool = [(''a.io'', 0)], conns = [run_conn]\<rparr>
     = (Inr run_response, rt', [OnH2 0 (Inl EOF), OnH2 1 (Inr run_response)])"
    using d run_opened
    by (simp add: roundTrip_def cachedH2_def CanTakeNewRequest_def use_h2_def run_env_def run_request_def run_conn_def
        evict_def evict_locked_def fresh_attempt_def adoptH2_def open_h2_def adopt_locked_def close_conn_def)
  then obtain rt' where r: "roundTrip run_env run_framer run_dialer run_profile run_request \<lparr>pool = [(''a.io'', 0)], conns = [run_conn]\<rparr>
     = (Inr run_response, rt', [OnH2 0 (Inl EOF), OnH2 1 (Inr run_response)])" by blast
  from roundTrip_attempts [OF r] r show ?thesis by auto
qed

end
