(* ===== verification/Http_Response.thy ===== *)
theory Http_Response
  imports Http_Message
begin

text \<open>
  \<open>resp.Write(client)\<close>: how \<open>net/http\<close> puts a response of the transport on the client's connection.
  It decides how the end of the body is marked, so it is where a response without a known length
  meets the interceptor's keep-alive loop. A response is written as its status line, its fields in
  order and its body; the bytes of the chunked coding are left out. Trailers of a chunked HTTP/1.1
  response are not modelled.
\<close>

section \<open>The code\<close>

text \<open>How the end of the body is marked.\<close>

datatype framing = NoPayload | ByLength nat | ChunkedCoding | UntilClose

record wire_response =
  StatusLine :: string
  Fields :: "(string \<times> string) list"
  Framing :: framing
  Payload :: bytes

text \<open>What reaches the client: the proxy's own status replies, and responses.\<close>

datatype client_msg = StatusReply int | Established | Response_msg wire_response | PartialHead string

definition chunked :: "string list \<Rightarrow> bool" where
  "chunked te \<longleftrightarrow> (case te of [] \<Rightarrow> False | c # _ \<Rightarrow> c = ''chunked'')"

definition bodyAllowedForStatus :: "int \<Rightarrow> bool" where
  "bodyAllowedForStatus status \<longleftrightarrow> \<not> (100 \<le> status \<and> status \<le> 199) \<and> status \<noteq> 204 \<and> status \<noteq> 304"

text \<open>\<open>ProtoAtLeast(1, 1)\<close> for a protocol \<open>HTTP/x.y\<close>, and the list of tokens of a field.\<close>

definition ProtoAtLeast11 :: "Response \<Rightarrow> bool" where
  "ProtoAtLeast11 resp \<longleftrightarrow> ''HTTP/1.1'' \<le> Proto resp"

definition hasToken :: "string \<Rightarrow> string \<Rightarrow> bool" where
  "hasToken v token \<longleftrightarrow> list_ex (\<lambda>part. EqualFold (TrimSpace part) token) (Split v CHR '','')"

text \<open>
  The length the writer works with: a declared length of 0 with a body that is not empty is unknown
  (-1). \<open>shouldSendContentLength\<close> for the request's \<open>method\<close>.
\<close>

definition probed_length :: "Response \<Rightarrow> bytes \<Rightarrow> int" where
  "probed_length resp body = (if RespContentLength resp = 0 \<and> body \<noteq> [] then - 1 else RespContentLength resp)"

definition sent_coding :: "string \<Rightarrow> Response \<Rightarrow> string list" where
  "sent_coding method resp =
     (if method = ''HEAD'' \<or> ProtoAtLeast11 resp then RespTransferEncoding resp else [])"

definition sent_length :: "string \<Rightarrow> Response \<Rightarrow> bytes \<Rightarrow> int" where
  "sent_length method resp body =
     (if chunked (sent_coding method resp) then - 1 else probed_length resp body)"

definition shouldSendContentLength :: "string \<Rightarrow> Response \<Rightarrow> bytes \<Rightarrow> bool" where
  "shouldSendContentLength method resp body \<longleftrightarrow>
     (if chunked (sent_coding method resp) then False
      else if 0 < sent_length method resp body then True
      else if sent_length method resp body < 0 then False
      else method = ''POST'' \<or> method = ''PUT'' \<or> method = ''PATCH'')"

definition sends_close :: "Response \<Rightarrow> bytes \<Rightarrow> bool" where
  "sends_close resp body \<longleftrightarrow>
     RespClose resp \<or> probed_length resp body = - 1 \<and> ProtoAtLeast11 resp
       \<and> \<not> chunked (RespTransferEncoding resp) \<and> \<not> Uncompressed resp"

text \<open>\<open>Header.WriteSubset\<close>: by key, without the three fields the writer sets itself.\<close>

definition clean_value :: "string \<Rightarrow> string" where
  "clean_value v =
     (let blank = (\<lambda>c. c = CHR '' '' \<or> c = CHR 0x09);
          flat = map (\<lambda>c. if c = CHR 0x0A \<or> c = CHR 0x0D then CHR '' '' else c) v
      in rev (dropWhile blank (rev (dropWhile blank flat))))"

definition written_fields :: "header \<Rightarrow> (string \<times> string) list" where
  "written_fields h =
     concat (map (\<lambda>k. map (\<lambda>v. (k, clean_value v)) (case header_index h k of Some vs \<Rightarrow> vs | None \<Rightarrow> []))
       (filter (\<lambda>k. \<not> List.member [''Content-Length'', ''Transfer-Encoding'', ''Trailer''] k
                  \<and> k \<noteq> [] \<and> list_all is_token_char k) (sort_Strings (map fst h))))"

definition status_line :: "Response \<Rightarrow> string" where
  "status_line resp =
     (let code = itoa_int (StatusCode resp); pad = replicate (3 - length code) CHR ''0'' @ code
      in Proto resp @ '' '' @ pad @ '' ''
         @ (if Status resp = [] then (if StatusText (StatusCode resp) = [] then ''status code '' @ code
                                      else StatusText (StatusCode resp))
            else TrimPrefix (Status resp) (code @ '' '')))"

definition response_fields :: "string \<Rightarrow> Response \<Rightarrow> bytes \<Rightarrow> (string \<times> string) list" where
  "response_fields method resp body =
     (if sends_close resp body \<and> \<not> hasToken (header_Get (RespHeader resp) ''Connection'') ''close''
      then [(''Connection'', ''close'')] else [])
     @ (if shouldSendContentLength method resp body
        then [(''Content-Length'', itoa_int (sent_length method resp body))]
        else if chunked (sent_coding method resp) then [(''Transfer-Encoding'', ''chunked'')] else [])
     @ written_fields (RespHeader resp)
     @ (if probed_length resp body = 0 \<and> \<not> chunked (sent_coding method resp)
           \<and> \<not> shouldSendContentLength method resp body \<and> bodyAllowedForStatus (StatusCode resp)
        then [(''Content-Length'', ''0'')] else [])"

definition response_framing :: "string \<Rightarrow> Response \<Rightarrow> bytes \<Rightarrow> framing" where
  "response_framing method resp body =
     (if method = ''HEAD'' then NoPayload
      else if chunked (sent_coding method resp) then ChunkedCoding
      else if sent_length method resp body = - 1 then UntilClose
      else ByLength (nat (sent_length method resp body)))"

text \<open>
  \<open>resp.Write\<close>. \<open>source\<close> is what reading the body gives: its bytes and the error after them. \<open>cw\<close> says
  whether the client's connection takes the next message. The result is the error returned and the
  messages written.
\<close>

type_synonym client_writer = "client_msg list \<Rightarrow> client_msg \<Rightarrow> go_error option"

definition client_write :: "client_writer \<Rightarrow> client_msg \<Rightarrow> client_msg list \<Rightarrow> go_error option \<times> client_msg list" where
  "client_write cw m out = (case cw out m of Some e \<Rightarrow> (Some e, out) | None \<Rightarrow> (None, out @ [m]))"

definition payload_of :: "framing \<Rightarrow> bytes \<Rightarrow> bytes" where
  "payload_of fr body = (case fr of NoPayload \<Rightarrow> [] | ByLength n \<Rightarrow> take n body | _ \<Rightarrow> body)"

definition Response_Write ::
  "client_writer \<Rightarrow> string \<Rightarrow> Response \<Rightarrow> bytes \<times> go_error option \<Rightarrow> client_msg list \<Rightarrow> go_error option \<times> client_msg list" where
  "Response_Write cw method resp source out =
     (case source of (body, read_err) \<Rightarrow>
       if RespContentLength resp = 0 \<and> body = [] \<and> read_err \<noteq> None then
         (case client_write cw (PartialHead (status_line resp)) out of
            (Some e, out) \<Rightarrow> (Some e, out) | (None, out) \<Rightarrow> (read_err, out))
       else
         (let fr = response_framing method resp body;
              w = \<lparr>StatusLine = status_line resp, Fields = response_fields method resp body, Framing = fr,
                   Payload = payload_of fr body\<rparr>
          in case client_write cw (Response_msg w) out of
               (Some e, out) \<Rightarrow> (Some e, out)
             | (None, out) \<Rightarrow>
                 (if fr = NoPayload then (None, out)
                  else if read_err \<noteq> None then (read_err, out)
                  else case fr of
                      ByLength n \<Rightarrow>
                        (if int (length body) = sent_length method resp body then (None, out)
                         else (Some (Errorf (''http: ContentLength='' @ itoa_int (sent_length method resp body)
                                 @ '' with Body length '' @ itoa (length body))), out))
                    | _ \<Rightarrow> (None, out))))"

section \<open>Where a body ends\<close>

text \<open>The client can tell the end of the message without the connection being closed.\<close>

definition self_delimited :: "string \<Rightarrow> Response \<Rightarrow> wire_response \<Rightarrow> bool" where
  "self_delimited method resp w \<longleftrightarrow>
     method = ''HEAD'' \<or> \<not> bodyAllowedForStatus (StatusCode resp)
     \<or> (''Transfer-Encoding'', ''chunked'') \<in> set (Fields w)
     \<or> (\<exists>n. (''Content-Length'', itoa n) \<in> set (Fields w) \<and> Framing w = ByLength n)"

definition wire_of :: "string \<Rightarrow> Response \<Rightarrow> bytes \<Rightarrow> wire_response" where
  "wire_of method resp body =
     \<lparr>StatusLine = status_line resp, Fields = response_fields method resp body,
      Framing = response_framing method resp body, Payload = payload_of (response_framing method resp body) body\<rparr>"

lemma written_fields_keys:
  "(k, v) \<in> set (written_fields h) \<Longrightarrow> k \<notin> {''Content-Length'', ''Transfer-Encoding'', ''Trailer''}"
  by (auto simp: written_fields_def)

lemma framing_fields:
  "k \<in> {''Content-Length'', ''Transfer-Encoding''} \<Longrightarrow> (k, v) \<in> set (response_fields method resp body) \<longleftrightarrow>
     (k, v) \<in> set ((if shouldSendContentLength method resp body
        then [(''Content-Length'', itoa_int (sent_length method resp body))]
        else if chunked (sent_coding method resp) then [(''Transfer-Encoding'', ''chunked'')] else [])
     @ (if probed_length resp body = 0 \<and> \<not> chunked (sent_coding method resp)
           \<and> \<not> shouldSendContentLength method resp body \<and> bodyAllowedForStatus (StatusCode resp)
        then [(''Content-Length'', ''0'')] else []))"
  using written_fields_keys [of k v "RespHeader resp"] by (auto simp: response_fields_def)

lemma itoa_int_nat: "0 \<le> n \<Longrightarrow> itoa_int n = itoa (nat n)"
  by (simp add: itoa_int_def)

lemma itoa_0: "itoa 0 = ''0''"
  by code_simp

lemma until_close_iff:
  "response_framing method resp body = UntilClose \<longleftrightarrow>
     method \<noteq> ''HEAD'' \<and> \<not> chunked (sent_coding method resp) \<and> probed_length resp body = - 1"
  by (simp add: response_framing_def sent_length_def)

text \<open>A response the interceptor writes marks its own end in exactly these cases: the request was HEAD, the
  status has no body, the coding is chunked, or the length is known. A response whose length is unknown
  runs until the connection is closed.\<close>

theorem Response_Write_delimited:
  assumes "- 1 \<le> RespContentLength resp"
  shows "self_delimited method resp (wire_of method resp body) \<longleftrightarrow>
     method = ''HEAD'' \<or> \<not> bodyAllowedForStatus (StatusCode resp) \<or> chunked (sent_coding method resp)
     \<or> 0 < RespContentLength resp \<or> RespContentLength resp = 0 \<and> body = []"
proof -
  have i0: "itoa_int 0 = ''0''" by (simp add: itoa_int_def itoa_0)
  show ?thesis
    using assms
    by (auto simp: self_delimited_def wire_of_def framing_fields response_framing_def sent_length_def probed_length_def
        shouldSendContentLength_def itoa_int_nat i0 itoa_0 intro: exI [of _ 0] split: if_splits)
qed

theorem Response_Write_delimited_witness:
  "\<not> self_delimited ''GET'' \<lparr>StatusCode = 200, Status = ''200 OK'', Proto = ''HTTP/2.0'', RespHeader = [],
       RespContentLength = - 1, Uncompressed = True, RespTransferEncoding = [], RespClose = False\<rparr>
     (wire_of ''GET'' \<lparr>StatusCode = 200, Status = ''200 OK'', Proto = ''HTTP/2.0'', RespHeader = [],
       RespContentLength = - 1, Uncompressed = True, RespTransferEncoding = [], RespClose = False\<rparr> [65])"
  by (subst Response_Write_delimited) (simp_all add: bodyAllowedForStatus_def sent_coding_def chunked_def)

lemma NoPayload_iff: "response_framing method resp body = NoPayload \<longleftrightarrow> method = ''HEAD''"
  by (simp add: response_framing_def)

lemma Response_Write_out:
  "Response_Write cw method resp source out = (e, out') \<Longrightarrow>
     out' = out \<and> e \<noteq> None \<or> out' = out @ [PartialHead (status_line resp)] \<and> e \<noteq> None
     \<or> out' = out @ [Response_msg (wire_of method resp (fst source))]"
  by (cases source)
    (auto simp: Response_Write_def client_write_def wire_of_def Let_def split: option.splits if_splits framing.splits
       dest: sym [of "Some _"])

end
