(* ===== verification/Authority.thy ===== *)
theory Authority
  imports Host_Match "HOL-Library.AList"
begin

text \<open>
  \<open>internal/ca/ca.go\<close> and \<open>internal/config/config.go\<close>: the local certificate authority, how it is
  generated, saved, loaded and how leaf certificates are minted and cached for concurrent
  clients. Keys, X.509, PEM and SHA-256 belong to Go's crypto packages: they are the fields of
  \<open>crypto\<close>, an argument of the operations. A key is an opaque number.
\<close>

section \<open>State\<close>

type_synonym key = nat

record Certificate =
  SerialNumber :: nat
  CommonName :: string
  Organization :: "string list"
  NotBefore :: int
  NotAfter :: int
  KeyUsage :: "string list"
  ExtKeyUsage :: "string list"
  BasicConstraintsValid :: bool
  IsCA :: bool
  MaxPathLenZero :: bool
  IPAddresses :: "bytes list"
  DNSNames :: "string list"

record tls_Certificate =
  CertDER :: bytes
  PrivateKey :: key

record Authority =
  caCert :: Certificate
  caKey :: key
  caDER :: bytes
  leafKey :: key
  cache :: "(string \<times> tls_Certificate) list"

text \<open>
  The crypto packages: \<open>GenerateKey\<close> and \<open>rand_Int\<close> consume a source of randomness, given as the
  number of draws so far; \<open>CreateCertificate template parent subject_key signer_key\<close>;
  \<open>ParsePKCS8\<close> returns \<open>None\<close> for a key that is not ECDSA.
\<close>

record crypto =
  GenerateKey :: "nat \<Rightarrow> go_error + key"
  rand_Int :: "nat \<Rightarrow> go_error + nat"
  CreateCertificate :: "Certificate \<Rightarrow> Certificate \<Rightarrow> key \<Rightarrow> key \<Rightarrow> go_error + bytes"
  ParseCertificate :: "bytes \<Rightarrow> go_error + Certificate"
  MarshalPKCS8 :: "key \<Rightarrow> go_error + bytes"
  ParsePKCS8 :: "bytes \<Rightarrow> go_error + key option"
  pem_Encode :: "string \<Rightarrow> bytes \<Rightarrow> bytes"
  pem_Decode :: "bytes \<Rightarrow> (string \<times> bytes) option"
  sha256 :: "bytes \<Rightarrow> bytes"

text \<open>Durations in nanoseconds.\<close>

definition hour :: int where "hour = 3600 * 1000000000"
definition caValidity :: int where "caValidity = 10 * 365 * 24 * hour"
definition leafValidity :: int where "leafValidity = 365 * 24 * hour"
definition clockSkew :: int where "clockSkew = hour"

section \<open>Generating\<close>

definition randSerial :: "crypto \<Rightarrow> nat \<Rightarrow> go_error + nat" where
  "randSerial cr draw =
     (case rand_Int cr draw of Inl e \<Rightarrow> Inl (Wrapf ''generate serial number'' e) | Inr n \<Rightarrow> Inr n)"

definition ca_template :: "nat \<Rightarrow> int \<Rightarrow> Certificate" where
  "ca_template serial now =
     \<lparr>SerialNumber = serial, CommonName = ''Doppel Local Root CA'', Organization = [''Doppel''],
      NotBefore = now - clockSkew, NotAfter = now + caValidity,
      KeyUsage = [''CertSign'', ''CRLSign''], ExtKeyUsage = [], BasicConstraintsValid = True, IsCA = True,
      MaxPathLenZero = True, IPAddresses = [], DNSNames = []\<rparr>"

definition Generate :: "crypto \<Rightarrow> nat \<Rightarrow> int \<Rightarrow> go_error + Authority" where
  "Generate cr draw now =
     (case GenerateKey cr draw of
        Inl e \<Rightarrow> Inl (Wrapf ''generate CA key'' e)
      | Inr k \<Rightarrow>
          (case randSerial cr (draw + 1) of
             Inl e \<Rightarrow> Inl e
           | Inr serial \<Rightarrow>
               (let tmpl = ca_template serial now
                in case CreateCertificate cr tmpl tmpl k k of
                     Inl e \<Rightarrow> Inl (Wrapf ''create CA certificate'' e)
                   | Inr der \<Rightarrow>
                       (case ParseCertificate cr der of
                          Inl e \<Rightarrow> Inl (Wrapf ''parse CA certificate'' e)
                        | Inr crt \<Rightarrow>
                            (case GenerateKey cr (draw + 2) of
                               Inl e \<Rightarrow> Inl (Wrapf ''generate leaf key'' e)
                             | Inr lk \<Rightarrow>
                                 Inr \<lparr>caCert = crt, caKey = k, caDER = der, leafKey = lk, cache = []\<rparr>)))))"

section \<open>Persistence\<close>

text \<open>
  The part of the file system the program touches: contents and permission bits by path, and
  which paths cannot be written or created. \<open>os.WriteFile\<close> keeps the permissions of a file
  that exists. When it fails it has left everything as it was (the file could not be opened), or it had opened
  and truncated the file, which then holds the part that was written (\<open>Some part\<close>). A file that exists can be read.
\<close>

record file_system =
  files :: "(string \<times> (bytes \<times> nat)) list"
  write_error :: "string \<Rightarrow> (go_error \<times> bytes option) option"
  mkdir_error :: "string \<Rightarrow> go_error option"

definition os_ReadFile :: "file_system \<Rightarrow> string \<Rightarrow> go_error + bytes" where
  "os_ReadFile fs path =
     (case map_of (files fs) path of
        None \<Rightarrow> Inl (SysError (''open '' @ path @ '': no such file or directory''))
      | Some (bs, _) \<Rightarrow> Inr bs)"

definition os_WriteFile :: "string \<Rightarrow> bytes \<Rightarrow> nat \<Rightarrow> file_system \<Rightarrow> go_error option \<times> file_system" where
  "os_WriteFile path bs perm fs =
     (let mode = (case map_of (files fs) path of Some (_, m) \<Rightarrow> m | None \<Rightarrow> perm);
          contents = (\<lambda>bs. fs\<lparr>files := AList.update path (bs, mode) (files fs)\<rparr>)
      in case write_error fs path of
           Some (e, None) \<Rightarrow> (Some e, fs)
         | Some (e, Some part) \<Rightarrow> (Some e, contents part)
         | None \<Rightarrow> (None, contents bs))"

definition Save :: "crypto \<Rightarrow> (string \<Rightarrow> string) \<Rightarrow> Authority \<Rightarrow> string \<Rightarrow> string \<Rightarrow> file_system \<Rightarrow> go_error option \<times> file_system" where
  "Save cr Dir a certPath keyPath fs =
     (case MarshalPKCS8 cr (caKey a) of
        Inl e \<Rightarrow> (Some (Wrapf ''marshal CA key'' e), fs)
      | Inr keyDER \<Rightarrow>
          (let certPEM = pem_Encode cr ''CERTIFICATE'' (caDER a);
               keyPEM = pem_Encode cr ''PRIVATE KEY'' keyDER
           in case mkdir_error fs (Dir certPath) of
                Some e \<Rightarrow> (Some (Wrapf ''create certificate directory'' e), fs)
              | None \<Rightarrow>
                  (case os_WriteFile certPath certPEM 420 fs of
                     (Some e, fs) \<Rightarrow> (Some (Wrapf ''write CA certificate'' e), fs)
                   | (None, fs) \<Rightarrow>
                       (case mkdir_error fs (Dir keyPath) of
                          Some e \<Rightarrow> (Some (Wrapf ''create key directory'' e), fs)
                        | None \<Rightarrow>
                            (case os_WriteFile keyPath keyPEM 384 fs of
                               (Some e, fs) \<Rightarrow> (Some (Wrapf ''write CA key'' e), fs)
                             | (None, fs) \<Rightarrow> (None, fs))))))"

definition Load :: "crypto \<Rightarrow> nat \<Rightarrow> file_system \<Rightarrow> string \<Rightarrow> string \<Rightarrow> go_error + Authority" where
  "Load cr draw fs certPath keyPath =
     (case os_ReadFile fs certPath of
        Inl e \<Rightarrow> Inl (Wrapf ''read CA certificate'' e)
      | Inr certPEM \<Rightarrow>
     (case os_ReadFile fs keyPath of
        Inl e \<Rightarrow> Inl (Wrapf ''read CA key'' e)
      | Inr keyPEM \<Rightarrow>
     (case pem_Decode cr certPEM of
        None \<Rightarrow> Inl (Errorf ''ca: invalid certificate PEM'')
      | Some (typ, certBytes) \<Rightarrow>
          if typ \<noteq> ''CERTIFICATE'' then Inl (Errorf ''ca: invalid certificate PEM'')
          else
     (case ParseCertificate cr certBytes of
        Inl e \<Rightarrow> Inl (Wrapf ''parse CA certificate'' e)
      | Inr crt \<Rightarrow>
     (case pem_Decode cr keyPEM of
        None \<Rightarrow> Inl (Errorf ''ca: invalid private key PEM'')
      | Some (_, keyBytes) \<Rightarrow>
     (case ParsePKCS8 cr keyBytes of
        Inl e \<Rightarrow> Inl (Wrapf ''parse CA key'' e)
      | Inr None \<Rightarrow> Inl (Errorf ''ca: private key is not ECDSA'')
      | Inr (Some k) \<Rightarrow>
     (case GenerateKey cr draw of
        Inl e \<Rightarrow> Inl (Wrapf ''generate leaf key'' e)
      | Inr lk \<Rightarrow>
          Inr \<lparr>caCert = crt, caKey = k, caDER = certBytes, leafKey = lk, cache = []\<rparr>)))))))"

definition CertificatePEM :: "crypto \<Rightarrow> Authority \<Rightarrow> bytes" where
  "CertificatePEM cr a = pem_Encode cr ''CERTIFICATE'' (caDER a)"

definition Fingerprint :: "crypto \<Rightarrow> Authority \<Rightarrow> string" where
  "Fingerprint cr a = concat (map hex2 (sha256 cr (caDER a)))"

section \<open>Configuration\<close>

record Config =
  DataDir :: string
  Addr :: string
  ConfigProfile :: string

text \<open>\<open>filepath.Join\<close> of a directory and a plain name is an argument, \<open>Join\<close>.\<close>

definition DefaultAddr :: string where "DefaultAddr = ''127.0.0.1:8080''"
definition DefaultProfile :: string where "DefaultProfile = ''safari-ios-iphone15''"

definition Default :: "(string \<Rightarrow> string \<Rightarrow> string) \<Rightarrow> go_error + string \<Rightarrow> go_error + Config" where
  "Default join base =
     (case base of
        Inl e \<Rightarrow> Inl (Wrapf ''locate user config directory'' e)
      | Inr b \<Rightarrow> Inr \<lparr>DataDir = join b ''doppel'', Addr = DefaultAddr, ConfigProfile = DefaultProfile\<rparr>)"

definition config_CACertPath :: "(string \<Rightarrow> string \<Rightarrow> string) \<Rightarrow> Config \<Rightarrow> string" where
  "config_CACertPath join c = join (DataDir c) ''ca.pem''"

definition CAKeyPath :: "(string \<Rightarrow> string \<Rightarrow> string) \<Rightarrow> Config \<Rightarrow> string" where
  "CAKeyPath join c = join (DataDir c) ''ca.key''"

definition ProfilesDir :: "(string \<Rightarrow> string \<Rightarrow> string) \<Rightarrow> Config \<Rightarrow> string" where
  "ProfilesDir join c = join (DataDir c) ''profiles''"

definition CAExists :: "(string \<Rightarrow> string \<Rightarrow> string) \<Rightarrow> file_system \<Rightarrow> Config \<Rightarrow> bool" where
  "CAExists join fs c =
     list_all (\<lambda>path. map_of (files fs) path \<noteq> None) [config_CACertPath join c, CAKeyPath join c]"

section \<open>Leaf certificates\<close>

definition leaf_template :: "string \<Rightarrow> nat \<Rightarrow> int \<Rightarrow> Certificate" where
  "leaf_template host serial now =
     (let tmpl = \<lparr>SerialNumber = serial, CommonName = host, Organization = [],
                  NotBefore = now - clockSkew, NotAfter = now + leafValidity,
                  KeyUsage = [''DigitalSignature''], ExtKeyUsage = [''ServerAuth''], BasicConstraintsValid = False,
                  IsCA = False, MaxPathLenZero = False, IPAddresses = [], DNSNames = []\<rparr>
      in case ParseIP host of
           Some ip \<Rightarrow> tmpl\<lparr>IPAddresses := [ip]\<rparr>
         | None \<Rightarrow> tmpl\<lparr>DNSNames := [host]\<rparr>)"

definition mint :: "crypto \<Rightarrow> nat \<Rightarrow> int \<Rightarrow> Authority \<Rightarrow> string \<Rightarrow> go_error + tls_Certificate" where
  "mint cr draw now a host =
     (case randSerial cr draw of
        Inl e \<Rightarrow> Inl e
      | Inr serial \<Rightarrow>
          (case CreateCertificate cr (leaf_template host serial now) (caCert a) (leafKey a) (caKey a) of
             Inl e \<Rightarrow> Inl (Wrapf (''mint leaf for '' @ quote host) e)
           | Inr der \<Rightarrow> Inr \<lparr>CertDER = der, PrivateKey = leafKey a\<rparr>))"

text \<open>
  \<open>LeafFor\<close> in its three sections: the look-up under the read lock, the minting without a lock, and
  the second look-up and the store under the write lock.
\<close>

definition leaf_cached :: "Authority \<Rightarrow> string \<Rightarrow> tls_Certificate option" where
  "leaf_cached a host = map_of (cache a) host"

definition leaf_store :: "Authority \<Rightarrow> string \<Rightarrow> tls_Certificate \<Rightarrow> tls_Certificate \<times> Authority" where
  "leaf_store a host cert =
     (case map_of (cache a) host of
        Some existing \<Rightarrow> (existing, a)
      | None \<Rightarrow> (cert, a\<lparr>cache := AList.update host cert (cache a)\<rparr>))"

definition LeafFor :: "crypto \<Rightarrow> nat \<Rightarrow> int \<Rightarrow> string \<Rightarrow> Authority \<Rightarrow> (go_error + tls_Certificate) \<times> Authority" where
  "LeafFor cr draw now host0 a =
     (let host = normalizeHost host0
      in case leaf_cached a host of
           Some cached \<Rightarrow> (Inr cached, a)
         | None \<Rightarrow>
             (case mint cr draw now a host of
                Inl e \<Rightarrow> (Inl e, a)
              | Inr cert \<Rightarrow> (case leaf_store a host cert of (cert, a) \<Rightarrow> (Inr cert, a))))"

text \<open>The certificate \<open>ServerTLSConfig\<close>'s callback picks: the client's server name, or the CONNECT host.\<close>

definition GetCertificate ::
  "crypto \<Rightarrow> nat \<Rightarrow> int \<Rightarrow> string \<Rightarrow> string \<Rightarrow> Authority \<Rightarrow> (go_error + tls_Certificate) \<times> Authority" where
  "GetCertificate cr draw now host serverName a =
     (let name = (if serverName \<noteq> [] then serverName else host) in LeafFor cr draw now name a)"

section \<open>Saving and loading\<close>

text \<open>What the crypto packages promise of their own encodings.\<close>

definition encodings_ok :: "crypto \<Rightarrow> bool" where
  "encodings_ok cr \<longleftrightarrow>
     (\<forall>t bs. t = ''CERTIFICATE'' \<or> t = ''PRIVATE KEY'' \<longrightarrow> pem_Decode cr (pem_Encode cr t bs) = Some (t, bs))
     \<and> (\<forall>k der. MarshalPKCS8 cr k = Inr der \<longrightarrow> ParsePKCS8 cr der = Inr (Some k))"

text \<open>The certificate of an authority is what its DER bytes parse to.\<close>

definition authority_ok :: "crypto \<Rightarrow> Authority \<Rightarrow> bool" where
  "authority_ok cr a \<longleftrightarrow> ParseCertificate cr (caDER a) = Inr (caCert a)"

lemma Generate_ok: "Generate cr draw now = Inr a \<Longrightarrow> authority_ok cr a \<and> cache a = []"
  by (auto simp: Generate_def authority_ok_def Let_def split: sum.splits)

lemma Load_ok: "Load cr draw fs cp kp = Inr a \<Longrightarrow> authority_ok cr a \<and> cache a = []"
  by (auto simp: Load_def authority_ok_def split: sum.splits option.splits prod.splits if_splits)

lemma os_ReadFile_WriteFile:
  assumes "os_WriteFile path bs perm fs = (None, fs')"
  shows "os_ReadFile fs' p = (if p = path then Inr bs else os_ReadFile fs p)"
    "map_of (files fs') p = (if p = path then Some (bs, case map_of (files fs) path of Some (_, m) \<Rightarrow> m | None \<Rightarrow> perm)
       else map_of (files fs) p)"
proof -
  from assms obtain m where "fs' = fs\<lparr>files := AList.update path (bs, m) (files fs)\<rparr>"
    "m = (case map_of (files fs) path of Some (_, m) \<Rightarrow> m | None \<Rightarrow> perm)"
    by (auto simp: os_WriteFile_def Let_def split: option.splits)
  then show "os_ReadFile fs' p = (if p = path then Inr bs else os_ReadFile fs p)"
    "map_of (files fs') p = (if p = path then Some (bs, case map_of (files fs) path of Some (_, m) \<Rightarrow> m | None \<Rightarrow> perm)
       else map_of (files fs) p)"
    by (simp_all add: os_ReadFile_def update_conv')
qed

lemma Save_NoneD:
  assumes "Save cr Dir a cp kp fs = (None, fs')"
  obtains der fs1 where "MarshalPKCS8 cr (caKey a) = Inr der"
    "os_WriteFile cp (pem_Encode cr ''CERTIFICATE'' (caDER a)) 420 fs = (None, fs1)"
    "os_WriteFile kp (pem_Encode cr ''PRIVATE KEY'' der) 384 fs1 = (None, fs')"
  using assms by (auto simp: Save_def Let_def split: sum.splits option.splits prod.splits)

lemma save_load:
  assumes "Save cr Dir a certPath keyPath fs = (None, fs')" "certPath \<noteq> keyPath"
    and "encodings_ok cr" "authority_ok cr a" "GenerateKey cr draw = Inr lk"
  shows "Load cr draw fs' certPath keyPath =
       Inr \<lparr>caCert = caCert a, caKey = caKey a, caDER = caDER a, leafKey = lk, cache = []\<rparr>
     \<and> (map_of (files fs) keyPath = None \<longrightarrow> (\<exists>bs. map_of (files fs') keyPath = Some (bs, 384)))"
proof -
  from assms(1) obtain der fs1 where m: "MarshalPKCS8 cr (caKey a) = Inr der"
    and w: "os_WriteFile certPath (pem_Encode cr ''CERTIFICATE'' (caDER a)) 420 fs = (None, fs1)"
      "os_WriteFile keyPath (pem_Encode cr ''PRIVATE KEY'' der) 384 fs1 = (None, fs')"
    by (rule Save_NoneD)
  note r = os_ReadFile_WriteFile [OF w(1)] os_ReadFile_WriteFile [OF w(2)]
  have p: "ParsePKCS8 cr der = Inr (Some (caKey a))" using assms(3) m by (auto simp: encodings_ok_def)
  have d: "pem_Decode cr (pem_Encode cr ''CERTIFICATE'' bs) = Some (''CERTIFICATE'', bs)"
    "pem_Decode cr (pem_Encode cr ''PRIVATE KEY'' bs) = Some (''PRIVATE KEY'', bs)" for bs
    using assms(3) by (simp_all add: encodings_ok_def)
  show ?thesis using assms(2,4,5) r p d by (auto simp: Load_def authority_ok_def)
qed

text \<open>C31: a saved authority is the one that is loaded again, up to its leaf key and empty cache; a key file that did
  not exist before is readable by its owner only (mode 0600).\<close>

theorem Save_Load_roundtrip:
  assumes "Save cr Dir a certPath keyPath fs = (None, fs')" "certPath \<noteq> keyPath"
    and "encodings_ok cr" "authority_ok cr a" "GenerateKey cr draw = Inr lk"
  shows "Load cr draw fs' certPath keyPath =
       Inr \<lparr>caCert = caCert a, caKey = caKey a, caDER = caDER a, leafKey = lk, cache = []\<rparr>
     \<and> (map_of (files fs) keyPath = None \<longrightarrow> (\<exists>bs. map_of (files fs') keyPath = Some (bs, 384)))"
  using assms by (rule save_load)

section \<open>The leaf cache under concurrency\<close>

text \<open>A call of \<open>LeafFor\<close>: entered, past a look-up that missed, with a minted certificate, or answered.\<close>

datatype leaf_call =
    Called string
  | Missed string
  | Minted string tls_Certificate
  | Served string "go_error + tls_Certificate"

record leaf_sys =
  authority :: Authority
  calls :: "leaf_call list"

inductive leaf_step :: "crypto \<Rightarrow> leaf_sys \<Rightarrow> leaf_sys \<Rightarrow> bool" for cr :: crypto where
  enter: "leaf_step cr s (s\<lparr>calls := calls s @ [Called (normalizeHost host)]\<rparr>)"
| hit: "k < length (calls s) \<Longrightarrow> calls s ! k = Called h \<Longrightarrow> leaf_cached (authority s) h = Some c \<Longrightarrow>
     leaf_step cr s (s\<lparr>calls := (calls s)[k := Served h (Inr c)]\<rparr>)"
| miss: "k < length (calls s) \<Longrightarrow> calls s ! k = Called h \<Longrightarrow> leaf_cached (authority s) h = None \<Longrightarrow>
     leaf_step cr s (s\<lparr>calls := (calls s)[k := Missed h]\<rparr>)"
| minted: "k < length (calls s) \<Longrightarrow> calls s ! k = Missed h \<Longrightarrow> mint cr draw now (authority s) h = Inr c \<Longrightarrow>
     leaf_step cr s (s\<lparr>calls := (calls s)[k := Minted h c]\<rparr>)"
| mint_failed: "k < length (calls s) \<Longrightarrow> calls s ! k = Missed h \<Longrightarrow> mint cr draw now (authority s) h = Inl e \<Longrightarrow>
     leaf_step cr s (s\<lparr>calls := (calls s)[k := Served h (Inl e)]\<rparr>)"
| stored: "k < length (calls s) \<Longrightarrow> calls s ! k = Minted h c \<Longrightarrow> leaf_store (authority s) h c = (c', a) \<Longrightarrow>
     leaf_step cr s (s\<lparr>authority := a, calls := (calls s)[k := Served h (Inr c')]\<rparr>)"

inductive leaf_reach :: "crypto \<Rightarrow> Authority \<Rightarrow> leaf_sys \<Rightarrow> bool" for cr :: crypto and a0 :: Authority where
  fresh: "cache a0 = [] \<Longrightarrow> leaf_reach cr a0 \<lparr>authority = a0, calls = []\<rparr>"
| further: "leaf_reach cr a0 s \<Longrightarrow> leaf_step cr s s' \<Longrightarrow> leaf_reach cr a0 s'"

text \<open>A certificate the authority issued for a host.\<close>

definition issued_for :: "crypto \<Rightarrow> Authority \<Rightarrow> string \<Rightarrow> tls_Certificate \<Rightarrow> bool" where
  "issued_for cr a h c \<longleftrightarrow>
     (\<exists>serial now. CreateCertificate cr (leaf_template h serial now) (caCert a) (leafKey a) (caKey a) = Inr (CertDER c))
     \<and> PrivateKey c = leafKey a"

definition leaf_inv :: "crypto \<Rightarrow> Authority \<Rightarrow> leaf_sys \<Rightarrow> bool" where
  "leaf_inv cr a0 s \<longleftrightarrow>
     (authority s)\<lparr>cache := []\<rparr> = a0\<lparr>cache := []\<rparr>
     \<and> (\<forall>h c. leaf_cached (authority s) h = Some c \<longrightarrow> issued_for cr a0 h c)
     \<and> (\<forall>h c. Minted h c \<in> set (calls s) \<longrightarrow> issued_for cr a0 h c)
     \<and> (\<forall>h c. Served h (Inr c) \<in> set (calls s) \<longrightarrow> leaf_cached (authority s) h = Some c)"

lemma issued_for_cong: "a\<lparr>cache := []\<rparr> = b\<lparr>cache := []\<rparr> \<Longrightarrow> issued_for cr a h c = issued_for cr b h c"
  by (cases a; cases b) (simp add: issued_for_def)

lemma mint_issued: "mint cr draw now a h = Inr c \<Longrightarrow> issued_for cr a h c"
  by (force simp: mint_def issued_for_def split: sum.splits)

lemma set_update_cases: "x \<in> set (xs[k := y]) \<Longrightarrow> x = y \<or> x \<in> set xs"
  using set_update_subset_insert by fastforce

lemma leaf_store_effect:
  assumes "leaf_store a h c = (c', a')"
  shows "leaf_cached a' h = Some c'" "h' \<noteq> h \<Longrightarrow> leaf_cached a' h' = leaf_cached a h'"
    "leaf_cached a h' = Some d \<Longrightarrow> leaf_cached a' h' = Some d" "leaf_cached a h = Some c' \<or> c' = c"
    "a'\<lparr>cache := []\<rparr> = a\<lparr>cache := []\<rparr>"
  using assms by (auto simp: leaf_store_def leaf_cached_def update_conv' split: option.splits)

lemma leaf_step_inv:
  assumes "leaf_step cr s s'" "leaf_inv cr a0 s"
  shows "leaf_inv cr a0 s'"
  using assms
proof (cases rule: leaf_step.cases)
  case (minted k h draw now c)
  have "issued_for cr a0 h c"
    using mint_issued [OF minted(4)] issued_for_cong assms(2) by (metis leaf_inv_def)
  with minted assms(2) show ?thesis by (auto simp: leaf_inv_def dest!: set_update_cases)
next
  case (stored k h c c' a)
  note e = leaf_store_effect [OF stored(4)]
  have m: "Minted h c \<in> set (calls s)" using stored(2,3) by (metis nth_mem)
  have i: "issued_for cr a0 h c'" using e(4) m assms(2) by (auto simp: leaf_inv_def)
  have "leaf_cached a h' = Some d \<Longrightarrow> issued_for cr a0 h' d" for h' d
    using e(1,2) i assms(2) by (cases "h' = h") (auto simp: leaf_inv_def)
  with stored e i assms(2) show ?thesis by (auto simp: leaf_inv_def dest!: set_update_cases)
qed (auto simp: leaf_inv_def dest!: set_update_cases)

lemma leaf_reach_inv: "leaf_reach cr a0 s \<Longrightarrow> leaf_inv cr a0 s"
proof (induction rule: leaf_reach.induct)
  case fresh
  then show ?case by (simp add: leaf_inv_def leaf_cached_def)
next
  case (further s s')
  then show ?case by (blast intro: leaf_step_inv)
qed

text \<open>C30: however calls interleave, everybody who asked for the same host is given the same certificate, and it
  is one the authority issued, with its leaf key, for exactly that host.\<close>

theorem LeafFor_consistent:
  assumes "leaf_reach cr a s" "Served h (Inr c) \<in> set (calls s)" "Served h (Inr c') \<in> set (calls s)"
  shows "c = c' \<and> issued_for cr a h c"
proof -
  note inv = leaf_reach_inv [OF assms(1)]
  have "leaf_cached (authority s) h = Some c" "leaf_cached (authority s) h = Some c'"
    using inv assms(2,3) unfolding leaf_inv_def by blast+
  with inv show ?thesis by (simp add: leaf_inv_def)
qed

text \<open>A leaf certificate names the host it is for and nothing else: an IP address for an address literal, a DNS
  name otherwise, never a CA, valid from an hour before its minting for a year.\<close>

theorem leaf_template_names:
  "IPAddresses (leaf_template h serial now) = (case ParseIP h of Some ip \<Rightarrow> [ip] | None \<Rightarrow> [])
   \<and> DNSNames (leaf_template h serial now) = (case ParseIP h of Some _ \<Rightarrow> [] | None \<Rightarrow> [h])
   \<and> \<not> IsCA (leaf_template h serial now) \<and> CommonName (leaf_template h serial now) = h
   \<and> NotBefore (leaf_template h serial now) = now - 3600 * 10 ^ 9
   \<and> NotAfter (leaf_template h serial now) = now + 365 * 24 * 3600 * 10 ^ 9"
  by (simp add: leaf_template_def Let_def clockSkew_def leafValidity_def hour_def split: option.split)

text \<open>The certificate for a connection does not depend on the port or on the case of the host: \<open>LeafFor\<close> answers
  \<open>host:port\<close> as it answers the lower-case host, and once answered it answers the same again.\<close>

theorem LeafFor_stable:
  assumes "plain_host h" "plain_port port" "LeafFor cr draw now (JoinHostPort h port) a = (Inr c, a')"
    and "\<forall>h p. SplitHostPort (ToLower host) \<noteq> Inr (h, p)" "EqualFold host h"
  shows "LeafFor cr draw' now' (ToLower host) a' = (Inr c, a')"
proof -
  have h: "normalizeHost (JoinHostPort h port) = ToLower h" by (rule normalizeHost_case [OF assms(1,2)])
  have "ToLower host = ToLower h" using assms(5) by (simp add: EqualFold_def)
  moreover have "normalizeHost (ToLower host) = ToLower host"
    using assms(4) by (auto simp: normalizeHost_def split: sum.split)
  ultimately have n: "normalizeHost (ToLower host) = ToLower h" by simp
  have "leaf_cached a' (ToLower h) = Some c"
    using assms(3) h by (auto simp: LeafFor_def Let_def split: option.splits sum.splits prod.splits dest: leaf_store_effect(1))
  with n show ?thesis by (simp add: LeafFor_def)
qed

section \<open>Instances\<close>

text \<open>A crypto package small enough to compute with.\<close>

definition example_crypto :: crypto where
  "example_crypto = \<lparr>GenerateKey = (\<lambda>n. Inr (7 + n)), rand_Int = (\<lambda>n. Inr n),
     CreateCertificate = (\<lambda>t p subj signer. Inr (bytes_of (CommonName t))),
     ParseCertificate = (\<lambda>der. Inr (ca_template 1 0)),
     MarshalPKCS8 = (\<lambda>k. if k = 7 then Inr [7] else Inl EOF), ParsePKCS8 = (\<lambda>der. Inr (Some 7)),
     pem_Encode = (\<lambda>t bs. (if t = ''CERTIFICATE'' then 1 else 0) # bs),
     pem_Decode = (\<lambda>bs. case bs of [] \<Rightarrow> None | x # r \<Rightarrow> Some (if x = 1 then ''CERTIFICATE'' else ''PRIVATE KEY'', r)),
     sha256 = (\<lambda>bs. bs)\<rparr>"

definition example_authority :: Authority where
  "example_authority = \<lparr>caCert = ca_template 1 0, caKey = 7, caDER = [4, 2], leafKey = 9, cache = []\<rparr>"

theorem Save_Load_roundtrip_witness:
  "\<exists>fs'. Save example_crypto (\<lambda>p. ''d'') example_authority ''d/ca.pem'' ''d/ca.key''
       \<lparr>files = [], write_error = (\<lambda>_. None), mkdir_error = (\<lambda>_. None)\<rparr> = (None, fs')
     \<and> Load example_crypto 0 fs' ''d/ca.pem'' ''d/ca.key'' =
       Inr \<lparr>caCert = ca_template 1 0, caKey = 7, caDER = [4, 2], leafKey = 7, cache = []\<rparr>"
proof -
  let ?fs = "\<lparr>files = [], write_error = (\<lambda>_. None), mkdir_error = (\<lambda>_. None)\<rparr> :: file_system"
  obtain fs' where s: "Save example_crypto (\<lambda>p. ''d'') example_authority ''d/ca.pem'' ''d/ca.key'' ?fs = (None, fs')"
    by (simp add: Save_def example_crypto_def example_authority_def os_WriteFile_def)
  have "encodings_ok example_crypto" by (auto simp: encodings_ok_def example_crypto_def split: if_splits)
  moreover have "authority_ok example_crypto example_authority"
    by (simp add: authority_ok_def example_crypto_def example_authority_def)
  moreover have "GenerateKey example_crypto 0 = Inr 7" by (simp add: example_crypto_def)
  ultimately show ?thesis using Save_Load_roundtrip [OF s] s by (auto simp: example_authority_def)
qed

theorem LeafFor_consistent_witness:
  "\<exists>s c. leaf_reach example_crypto example_authority s \<and> Served ''h.io'' (Inr c) \<in> set (calls s)
     \<and> issued_for example_crypto example_authority ''h.io'' c"
proof -
  let ?c = "\<lparr>CertDER = bytes_of ''h.io'', PrivateKey = 9\<rparr>"
  let ?s = "\<lambda>a cs. \<lparr>authority = a, calls = cs\<rparr>"
  have n: "normalizeHost ''H.io:443'' = ''h.io''" by code_simp
  have m: "mint example_crypto 0 0 example_authority ''h.io'' = Inr ?c"
    by (simp add: mint_def randSerial_def example_crypto_def example_authority_def leaf_template_def Let_def split: option.split)
  let ?a = "example_authority\<lparr>cache := [(''h.io'', ?c)]\<rparr>"
  have "leaf_reach example_crypto example_authority (?s example_authority [])"
    by (rule leaf_reach.fresh) (simp add: example_authority_def)
  moreover have "leaf_step example_crypto (?s example_authority []) (?s example_authority [Called ''h.io''])"
    using leaf_step.enter [of example_crypto "?s example_authority []" "''H.io:443''"] n by simp
  moreover have "leaf_step example_crypto (?s example_authority [Called ''h.io'']) (?s example_authority [Missed ''h.io''])"
    using leaf_step.miss [of 0 "?s example_authority [Called ''h.io'']" "''h.io''" example_crypto]
    by (simp add: leaf_cached_def example_authority_def)
  moreover have "leaf_step example_crypto (?s example_authority [Missed ''h.io'']) (?s example_authority [Minted ''h.io'' ?c])"
    using leaf_step.minted [of 0 "?s example_authority [Missed ''h.io'']" "''h.io''" example_crypto 0 0 ?c] m by simp
  moreover have "leaf_step example_crypto (?s example_authority [Minted ''h.io'' ?c]) (?s ?a [Served ''h.io'' (Inr ?c)])"
    using leaf_step.stored [of 0 "?s example_authority [Minted ''h.io'' ?c]" "''h.io''" ?c ?c ?a example_crypto]
    by (simp add: leaf_store_def example_authority_def)
  ultimately have r: "leaf_reach example_crypto example_authority (?s ?a [Served ''h.io'' (Inr ?c)])"
    by (blast intro: leaf_reach.further)
  have "Served ''h.io'' (Inr ?c) \<in> set (calls (?s ?a [Served ''h.io'' (Inr ?c)]))" by simp
  with r LeafFor_consistent [OF r this this] show ?thesis by blast
qed

theorem LeafFor_stable_witness:
  "\<exists>c a'. LeafFor example_crypto 0 0 ''Host.io:443'' example_authority = (Inr c, a')
     \<and> LeafFor example_crypto 5 9 ''host.io'' a' = (Inr c, a')"
proof -
  have j: "JoinHostPort ''Host.io'' ''443'' = ''Host.io:443''" "plain_host ''Host.io''" "plain_port ''443''"
    "ToLower ''HOST.io'' = ''host.io''" "EqualFold ''HOST.io'' ''Host.io''" by code_simp+
  have "(case SplitHostPort ''host.io'' of Inl _ \<Rightarrow> True | Inr _ \<Rightarrow> False)" by code_simp
  then have ns: "\<forall>h p. SplitHostPort (ToLower ''HOST.io'') \<noteq> Inr (h, p)" using j(4) by (auto split: sum.splits)
  have "\<exists>c a'. LeafFor example_crypto 0 0 ''Host.io:443'' example_authority = (Inr c, a')"
    by (simp add: LeafFor_def leaf_cached_def mint_def randSerial_def example_crypto_def example_authority_def
        leaf_store_def Let_def)
  then obtain c a' where l: "LeafFor example_crypto 0 0 (JoinHostPort ''Host.io'' ''443'') example_authority = (Inr c, a')"
    using j(1) by auto
  from LeafFor_stable [OF j(2,3) l ns j(5), of 5 9] l j(1,4) show ?thesis by auto
qed

end
