(* ===== verification/Mitm.thy ===== *)
theory Mitm
  imports Connection_Pool Http_Response Authority
begin

text \<open>
  The interceptor of \<open>internal/mitm/mitm.go\<close> and \<open>errors.go\<close>: what becomes of a client's request on its
  way upstream, what is written back, the loop over the requests of one connection and the
  classification of errors that end it.

  \<open>http.ReadRequest\<close> on the client's stream is the list of its results; \<open>url.Parse\<close> inside
  \<open>http.NewRequest\<close> is the parameter \<open>parse_url\<close>, which gives a URL's scheme, host and request target.
\<close>

section \<open>Classifying errors\<close>

definition isClientAbort :: "go_error option \<Rightarrow> bool" where
  "isClientAbort err =
     (case err of
        None \<Rightarrow> False
      | Some e \<Rightarrow>
          if errors_Is e ErrClosed \<or> errors_Is e ErrClosedPipe then True
          else list_ex (\<lambda>fragment. Contains (ToLower (error_text e)) fragment)
            [''wsasend'', ''connection was aborted'', ''connection reset by peer'', ''broken pipe'',
             ''use of closed network connection''])"

definition isConnectionTakenOver :: "go_error \<Rightarrow> bool" where
  "isConnectionTakenOver e \<longleftrightarrow> errors_Is e ErrConnectionTakenOver \<or> errors_Is e Canceled"

section \<open>Requests\<close>

definition headerTokenContains :: "string \<Rightarrow> string \<Rightarrow> bool" where
  "headerTokenContains v token \<longleftrightarrow> list_ex (\<lambda>part. EqualFold (TrimSpace part) token) (Split v CHR '','')"

definition isWebSocketUpgrade :: "Request \<Rightarrow> bool" where
  "isWebSocketUpgrade req \<longleftrightarrow>
     EqualFold (header_Get (ReqHeader req) ''Upgrade'') ''websocket''
     \<and> headerTokenContains (header_Get (ReqHeader req) ''Connection'') ''upgrade''"

definition hopByHopHeaders :: "string list" where
  "hopByHopHeaders =
     [''Connection'', ''Proxy-Connection'', ''Keep-Alive'', ''Te'', ''Trailer'', ''Transfer-Encoding'', ''Upgrade'',
      ''Proxy-Authenticate'', ''Proxy-Authorization'']"

record Interceptor =
  ic_CA :: Authority
  ic_Profile :: Profile
  Transport_Dialer :: Dialer
  Transport_Profile :: Profile
  RewriteHeaders :: bool
  PassthroughList :: "string list"

definition request_target :: "Request \<Rightarrow> string \<Rightarrow> string \<times> string" where
  "request_target req host =
     (let authority = (if Host req = [] then host else Host req)
      in (authority, ''https://'' @ authority @ URL_RequestURI req))"

text \<open>\<open>http.NewRequest(method, target, body)\<close>, with an empty header; a trailing empty port is dropped.\<close>

type_synonym url_parser = "string \<Rightarrow> go_error + string \<times> string \<times> string"

definition removeEmptyPort :: "string \<Rightarrow> string" where
  "removeEmptyPort host = (if host \<noteq> [] \<and> last host = CHR '':'' then butlast host else host)"

definition http_NewRequest :: "url_parser \<Rightarrow> string \<Rightarrow> string \<Rightarrow> req_body option \<Rightarrow> go_error + Request" where
  "http_NewRequest parse_url method target body =
     (let method = (if method = [] then ''GET'' else method)
      in if \<not> list_all is_token_char method then Inl (Errorf (''net/http: invalid method '' @ quote method))
         else case parse_url target of
             Inl e \<Rightarrow> Inl e
           | Inr (scheme, host, uri) \<Rightarrow>
               Inr \<lparr>Method = method, URL_Scheme = scheme, URL_Host = removeEmptyPort host, URL_RequestURI = uri,
                    Host = removeEmptyPort host, ReqHeader = [], Body = body, ReqContentLength = 0\<rparr>)"

text \<open>The request \<open>forward\<close> hands to the transport.\<close>

definition upstream_request :: "url_parser \<Rightarrow> Interceptor \<Rightarrow> Request \<Rightarrow> string \<Rightarrow> go_error + Request" where
  "upstream_request parse_url ic req host =
     (case http_NewRequest parse_url (Method req) (snd (request_target req host)) (Body req) of
        Inl e \<Rightarrow> Inl e
      | Inr outReq \<Rightarrow>
          (let header = fold (\<lambda>name h. header_Del h name) hopByHopHeaders (ReqHeader req);
               header = (if RewriteHeaders ic then Apply (ic_Profile ic) header else header)
           in Inr (outReq\<lparr>ReqHeader := header, ReqContentLength := ReqContentLength req\<rparr>)))"

definition websocket_request :: "url_parser \<Rightarrow> Interceptor \<Rightarrow> Request \<Rightarrow> string \<Rightarrow> go_error + Request" where
  "websocket_request parse_url ic req host =
     (case http_NewRequest parse_url (Method req) (snd (request_target req host)) (Body req) of
        Inl e \<Rightarrow> Inl e
      | Inr outReq \<Rightarrow>
          (let header = fold (\<lambda>name h. header_Del h name)
                 [''Proxy-Connection'', ''Proxy-Authenticate'', ''Proxy-Authorization''] (ReqHeader req);
               header = (if RewriteHeaders ic \<and> UserAgent (ic_Profile ic) \<noteq> []
                         then header_Set header ''User-Agent'' (UserAgent (ic_Profile ic)) else header)
           in Inr (outReq\<lparr>ReqHeader := header, ReqContentLength := ReqContentLength req,
                     Host := fst (request_target req host)\<rparr>)))"

section \<open>Forwarding\<close>

text \<open>
  One request's surroundings: the transport's environment and what reading the response's body gives.
  \<open>events\<close> records what happens to the upstream side: the bodies and the connections that are closed,
  and the tunnel.
\<close>

record exchange =
  ex_env :: rt_env
  ex_body :: "bytes \<times> go_error option"

datatype mitm_event = BodyClosed | UpstreamDialed | UpstreamClosed | Tunnelled

record mitm_state =
  m_pool :: rt_state
  m_out :: "client_msg list"
  m_events :: "mitm_event list"

text \<open>\<open>writeStatus(client, status)\<close>: the result of the write is ignored.\<close>

definition reply_status :: "client_writer \<Rightarrow> int \<Rightarrow> mitm_state \<Rightarrow> mitm_state" where
  "reply_status cw status st = st\<lparr>m_out := snd (client_write cw (StatusReply status) (m_out st))\<rparr>"

definition happened :: "mitm_event list \<Rightarrow> mitm_state \<Rightarrow> mitm_state" where
  "happened evs st = st\<lparr>m_events := m_events st @ evs\<rparr>"

definition forwardWebSocket ::
  "client_writer \<Rightarrow> url_parser \<Rightarrow> Interceptor \<Rightarrow> exchange \<Rightarrow> Request \<Rightarrow> string \<Rightarrow> mitm_state \<Rightarrow>
   go_error option \<times> mitm_state" where
  "forwardWebSocket cw parse_url ic ex req host st =
     (case websocket_request parse_url ic req host of
        Inl e \<Rightarrow> (Some (Wrapf ''build upstream websocket request'' e), reply_status cw 400 st)
      | Inr outReq \<Rightarrow>
          (case DialWithALPN (rt_dial (ex_env ex)) (rt_handshake (ex_env ex)) (rt_clear (ex_env ex))
                  (Transport_Dialer ic) (ic_Profile ic) (fst (request_target req host)) [''http/1.1''] of
             (Inl e, _) \<Rightarrow> (Some (Wrapf ''websocket upstream dial'' e), reply_status cw 502 st)
           | (Inr conn, _) \<Rightarrow>
               (let st = happened [UpstreamDialed] st
                in if conn_ALPN conn = ''h2'' then
                     (Some (Errorf ''websocket upstream negotiated h2 despite http/1.1-only ALPN''),
                      reply_status cw 502 (happened [UpstreamClosed] st))
                   else case WriteRequestHTTP1 outReq (ic_Profile ic) (tls_stream conn) of
                       (Inl e, _) \<Rightarrow> (Some (Wrapf ''write websocket upgrade upstream'' e), happened [UpstreamClosed] st)
                     | (Inr _, s) \<Rightarrow>
                         (case ReadResponse (ex_env ex) s of
                            Inl e \<Rightarrow> (Some (Wrapf ''read websocket upgrade response'' e),
                                      reply_status cw 502 (happened [UpstreamClosed] st))
                          | Inr resp \<Rightarrow>
                              (case Response_Write cw (Method outReq) resp (ex_body ex) (m_out st) of
                                 (err, out) \<Rightarrow>
                                   (let st = st\<lparr>m_out := out\<rparr>
                                    in if StatusCode resp \<noteq> 101 then
                                         (case err of
                                            Some e \<Rightarrow> (Some (Wrapf ''write websocket rejection to client'' e),
                                                       happened [UpstreamClosed, BodyClosed] st)
                                          | None \<Rightarrow> (None, happened [UpstreamClosed, BodyClosed] st))
                                       else
                                         (case err of
                                            Some e \<Rightarrow> (Some (Wrapf ''write websocket upgrade response to client'' e),
                                                       happened [UpstreamClosed, BodyClosed] st)
                                          | None \<Rightarrow> (Some ErrConnectionTakenOver,
                                                     happened [Tunnelled, UpstreamClosed, BodyClosed] st))))))))"

definition forward ::
  "client_writer \<Rightarrow> framer \<Rightarrow> url_parser \<Rightarrow> Interceptor \<Rightarrow> exchange \<Rightarrow> Request \<Rightarrow> string \<Rightarrow> mitm_state \<Rightarrow>
   go_error option \<times> mitm_state" where
  "forward cw wr parse_url ic ex req host st =
     (if isWebSocketUpgrade req then forwardWebSocket cw parse_url ic ex req host st
      else case upstream_request parse_url ic req host of
          Inl e \<Rightarrow> (Some (Wrapf ''build upstream request'' e), reply_status cw 400 st)
        | Inr outReq \<Rightarrow>
            (case RoundTrip (ex_env ex) wr (Transport_Dialer ic) (Transport_Profile ic) outReq (m_pool st) of
               (Inl e, rt, _) \<Rightarrow> (Some (Wrapf ''upstream round trip'' e), reply_status cw 502 (st\<lparr>m_pool := rt\<rparr>))
             | (Inr (resp, body), rt, _) \<Rightarrow>
                 (case Response_Write cw (Method outReq) resp (ex_body ex) (m_out st) of
                    (err, out) \<Rightarrow>
                      (let st = happened [BodyClosed] (st\<lparr>m_pool := rt, m_out := out\<rparr>)
                       in case err of
                            Some e \<Rightarrow> (Some (Wrapf ''write response to client'' e), st)
                          | None \<Rightarrow> (None, st)))))"

section \<open>The loop over a connection's requests\<close>

text \<open>How \<open>Intercept\<close> stands: it waits for the next request, or it returned for one of its reasons.\<close>

datatype ending = AwaitingRequest | HandshakeFailed | ClientEOF | ReadFailed go_error | TakenOver
  | ClientAborted go_error | RequestFailed go_error

fun intercept_loop ::
  "client_writer \<Rightarrow> framer \<Rightarrow> url_parser \<Rightarrow> Interceptor \<Rightarrow> string \<Rightarrow> ((go_error + Request) \<times> exchange) list \<Rightarrow>
   mitm_state \<Rightarrow> ending \<times> mitm_state" where
  "intercept_loop cw wr parse_url ic host [] st = (AwaitingRequest, st)"
| "intercept_loop cw wr parse_url ic host ((read, ex) # reads) st =
     (case read of
        Inl e \<Rightarrow> (if errors_Is e EOF then ClientEOF else ReadFailed e, st)
      | Inr req \<Rightarrow>
          (case forward cw wr parse_url ic ex req host st of
             (None, st) \<Rightarrow> intercept_loop cw wr parse_url ic host reads st
           | (Some e, st) \<Rightarrow>
               (if isConnectionTakenOver e then TakenOver
                else if isClientAbort (Some e) then ClientAborted e else RequestFailed e, st)))"

text \<open>\<open>Intercept\<close>: the flags say whether the TLS connection and the client's connection have been closed;
  nothing is closed while the loop waits.\<close>

definition Intercept ::
  "client_writer \<Rightarrow> framer \<Rightarrow> url_parser \<Rightarrow> Interceptor \<Rightarrow> go_error option \<Rightarrow> string \<Rightarrow>
   ((go_error + Request) \<times> exchange) list \<Rightarrow> mitm_state \<Rightarrow> ending \<times> mitm_state \<times> bool \<times> bool" where
  "Intercept cw wr parse_url ic handshake_err host reads st =
     (if handshake_err \<noteq> None then (HandshakeFailed, st, False, True)
      else case intercept_loop cw wr parse_url ic host reads st of
          (AwaitingRequest, st) \<Rightarrow> (AwaitingRequest, st, False, False)
        | (r, st) \<Rightarrow> (r, st, True, True))"

section \<open>What goes upstream\<close>

lemma hop_by_hop_canonical: "CanonicalHeaderKey ` set hopByHopHeaders = set hopByHopHeaders"
  by code_simp

lemma upstream_request_InrD:
  assumes "upstream_request parse_url ic req host = Inr out"
  shows "ReqHeader out = (if RewriteHeaders ic then Apply (ic_Profile ic) (fold (\<lambda>name h. header_Del h name) hopByHopHeaders (ReqHeader req))
       else fold (\<lambda>name h. header_Del h name) hopByHopHeaders (ReqHeader req))"
    "Method out = (if Method req = [] then ''GET'' else Method req)" "Body out = Body req" "ReqContentLength out = ReqContentLength req"
    "\<exists>scheme h uri. parse_url (snd (request_target req host)) = Inr (scheme, h, uri) \<and> URL_Scheme out = scheme
       \<and> URL_Host out = removeEmptyPort h \<and> Host out = removeEmptyPort h \<and> URL_RequestURI out = uri"
  using assms by (auto simp: upstream_request_def http_NewRequest_def Let_def split: sum.splits if_splits)

lemma upstream_header:
  assumes "upstream_request parse_url ic req host = Inr out" "header_wf (ReqHeader req)"
    and "distinct (map (CanonicalHeaderKey \<circ> fst) (SetHeaders (Headers (ic_Profile ic))))"
  shows "header_index (ReqHeader out) k =
      (case (if RewriteHeaders ic then applied_value (ic_Profile ic) [] k else None) of
         Some vs \<Rightarrow> Some vs
       | None \<Rightarrow> if k \<in> set hopByHopHeaders then None else header_index (ReqHeader req) k)
     \<and> Body out = Body req \<and> ReqContentLength out = ReqContentLength req
     \<and> (Method req \<noteq> [] \<longrightarrow> Method out = Method req)"
proof -
  let ?h = "fold (\<lambda>name h. header_Del h name) hopByHopHeaders (ReqHeader req)"
  have del: "header_index ?h k = (if k \<in> set hopByHopHeaders then None else header_index (ReqHeader req) k)" "header_wf ?h"
    using assms(2) by (simp_all add: hdr.lookup_del_all hdr.wf_del_all hop_by_hop_canonical)
  have app: "header_index (Apply (ic_Profile ic) ?h) k = applied_value (ic_Profile ic) ?h k"
    by (rule apply_lookup [OF del(2) assms(3)])
  show ?thesis
    using upstream_request_InrD [OF assms(1)] del(1) app
    by (auto simp: applied_value_def header_index_def split: option.split)
qed

text \<open>C3: The request sent upstream is the client's with the proxy's changes and no other: the method, the body
  and its length are kept; a field the profile sets has the profile's value when headers are
  rewritten; every other connection-scoped field is gone, and all the rest keep their values.\<close>

theorem upstream_request_header:
  assumes "upstream_request parse_url ic req host = Inr out" "header_wf (ReqHeader req)"
    and "distinct (map (CanonicalHeaderKey \<circ> fst) (SetHeaders (Headers (ic_Profile ic))))"
  shows "header_index (ReqHeader out) k =
      (case (if RewriteHeaders ic then applied_value (ic_Profile ic) [] k else None) of
         Some vs \<Rightarrow> Some vs
       | None \<Rightarrow> if k \<in> set hopByHopHeaders then None else header_index (ReqHeader req) k)
     \<and> Body out = Body req \<and> ReqContentLength out = ReqContentLength req
     \<and> (Method req \<noteq> [] \<longrightarrow> Method out = Method req)"
  using assms by (rule upstream_header)

section \<open>Answers\<close>

lemma client_write_out: "snd (client_write cw m out) = out \<or> snd (client_write cw m out) = out @ [m]"
  by (simp add: client_write_def split: option.split)

lemma reply_status_out:
  "m_out (reply_status cw s st) = m_out st \<or> m_out (reply_status cw s st) = m_out st @ [StatusReply s]"
  "m_events (reply_status cw s st) = m_events st" "m_pool (reply_status cw s st) = m_pool st"
  using client_write_out by (auto simp: reply_status_def)

lemma happened_simps [simp]:
  "m_out (happened evs st) = m_out st" "m_pool (happened evs st) = m_pool st" "m_events (happened evs st) = m_events st @ evs"
  by (simp_all add: happened_def)

text \<open>What one request adds to the client's stream: its response, the proxy's status, or less.\<close>

definition answer_of :: "exchange \<Rightarrow> client_msg \<Rightarrow> bool" where
  "answer_of ex m \<longleftrightarrow> (\<exists>method resp. m = Response_msg (wire_of method resp (fst (ex_body ex))))"

definition partial_answer :: "client_msg \<Rightarrow> bool" where
  "partial_answer m \<longleftrightarrow> (\<exists>s. m = PartialHead s) \<or> m = StatusReply 400 \<or> m = StatusReply 502"

definition adds_answer :: "exchange \<Rightarrow> go_error option \<Rightarrow> client_msg list \<Rightarrow> client_msg list \<Rightarrow> bool" where
  "adds_answer ex r out out' \<longleftrightarrow>
     (\<exists>m. out' = out @ [m] \<and> (answer_of ex m \<or> r \<noteq> None \<and> partial_answer m)) \<or> out' = out \<and> r \<noteq> None"

lemma adds_answer_reply:
  "s = 400 \<or> s = 502 \<Longrightarrow> m_out st0 = out \<Longrightarrow> adds_answer ex (Some e) out (m_out (reply_status cw s st0))"
  using reply_status_out(1) [of cw s st0] by (auto simp: adds_answer_def partial_answer_def)

lemma adds_answer_write:
  "Response_Write cw method resp (ex_body ex) out = (err, out') \<Longrightarrow> (err \<noteq> None \<longrightarrow> r \<noteq> None) \<Longrightarrow> adds_answer ex r out out'"
  by (drule Response_Write_out) (unfold adds_answer_def answer_of_def partial_answer_def, blast)

lemma adds_answer_none: "adds_answer ex (Some e) out out"
  by (simp add: adds_answer_def)

lemma forwardWebSocket_adds:
  "forwardWebSocket cw parse_url ic ex req host st = (r, st') \<Longrightarrow> adds_answer ex r (m_out st) (m_out st')"
  unfolding forwardWebSocket_def Let_def
  by (auto intro: adds_answer_reply adds_answer_none adds_answer_write
      split: sum.splits prod.splits option.splits if_splits)

lemma forward_adds:
  assumes "forward cw wr parse_url ic ex req host st = (r, st')"
  shows "adds_answer ex r (m_out st) (m_out st')"
proof (cases "isWebSocketUpgrade req")
  case True
  with assms show ?thesis by (simp add: forward_def forwardWebSocket_adds)
next
  case False
  with assms show ?thesis
    unfolding forward_def Let_def
    by (auto intro: adds_answer_reply adds_answer_none adds_answer_write
        split: sum.splits prod.splits option.splits if_splits)
qed

lemma intercept_loop_spec:
  "intercept_loop cw wr parse_url ic host reads st = (r, st') \<Longrightarrow>
     \<exists>msgs. m_out st' = m_out st @ msgs \<and> length msgs \<le> length reads
       \<and> (\<forall>i < length msgs. answer_of (snd (reads ! i)) (msgs ! i)
            \<or> Suc i = length msgs \<and> partial_answer (msgs ! i) \<and> r \<noteq> AwaitingRequest)
       \<and> (r = AwaitingRequest \<longrightarrow> length msgs = length reads)"
proof (induction cw wr parse_url ic host reads st rule: intercept_loop.induct)
  case (1 cw wr parse_url ic host st)
  then show ?case by simp
next
  case (2 cw wr parse_url ic host read ex reads st)
  show ?case
  proof (cases read)
    case (Inl e)
    with 2(2) show ?thesis by (intro exI [of _ "[]"]) (auto split: if_splits)
  next
    case (Inr req)
    obtain fr st1 where f: "forward cw wr parse_url ic ex req host st = (fr, st1)" by force
    note add = forward_adds [OF f]
    show ?thesis
    proof (cases fr)
      case None
      with 2(2) Inr f have l: "intercept_loop cw wr parse_url ic host reads st1 = (r, st')" by simp
      from add None obtain m where m: "m_out st1 = m_out st @ [m]" "answer_of ex m"
        by (auto simp: adds_answer_def)
      from 2(1) [OF Inr f [symmetric] None l] obtain msgs where msgs:
        "m_out st' = m_out st1 @ msgs" "length msgs \<le> length reads"
        "\<forall>i < length msgs. answer_of (snd (reads ! i)) (msgs ! i)
            \<or> Suc i = length msgs \<and> partial_answer (msgs ! i) \<and> r \<noteq> AwaitingRequest"
        "r = AwaitingRequest \<longrightarrow> length msgs = length reads" by blast
      show ?thesis
        using m msgs by (intro exI [of _ "m # msgs"]) (auto simp: nth_Cons split: nat.split)
    next
      case (Some e)
      with 2(2) Inr f have r: "st' = st1" "r \<noteq> AwaitingRequest" by (auto split: if_splits)
      from add show ?thesis
        unfolding adds_answer_def r(1)
      proof
        assume "\<exists>m. m_out st1 = m_out st @ [m] \<and> (answer_of ex m \<or> fr \<noteq> None \<and> partial_answer m)"
        then obtain m where "m_out st1 = m_out st @ [m]" "answer_of ex m \<or> partial_answer m" by blast
        with r show "\<exists>msgs. m_out st1 = m_out st @ msgs \<and> length msgs \<le> length ((read, ex) # reads)
          \<and> (\<forall>i < length msgs. answer_of (snd (((read, ex) # reads) ! i)) (msgs ! i)
               \<or> Suc i = length msgs \<and> partial_answer (msgs ! i) \<and> r \<noteq> AwaitingRequest)
          \<and> (r = AwaitingRequest \<longrightarrow> length msgs = length ((read, ex) # reads))"
          by (intro exI [of _ "[m]"]) auto
      qed (use r in \<open>intro exI [of _ "[]"], auto\<close>)
    qed
  qed
qed

text \<open>C7: Answers are not lost, doubled or reordered: one connection's loop adds at most one message for each
  request it read, in the order of the requests; every message but the last is a whole response with the
  body of its own exchange; while the connection stays open every request has its answer. Whatever ends
  the loop closes the client's connection, and the TLS connection if there was one.\<close>

theorem Intercept_in_order:
  assumes "Intercept cw wr parse_url ic handshake_err host reads st = (r, st', tls_closed, client_closed)"
  shows "(\<exists>msgs. m_out st' = m_out st @ msgs \<and> length msgs \<le> length reads
       \<and> (\<forall>i < length msgs. answer_of (snd (reads ! i)) (msgs ! i)
            \<or> Suc i = length msgs \<and> partial_answer (msgs ! i) \<and> r \<noteq> AwaitingRequest)
       \<and> (r = AwaitingRequest \<longrightarrow> length msgs = length reads))
     \<and> client_closed = (r \<noteq> AwaitingRequest) \<and> tls_closed = (client_closed \<and> r \<noteq> HandshakeFailed)"
proof (cases "handshake_err = None")
  case False
  with assms show ?thesis by (auto simp: Intercept_def intro: exI [of _ "[]"])
next
  case True
  obtain r1 st1 where l: "intercept_loop cw wr parse_url ic host reads st = (r1, st1)" by force
  have "r1 \<noteq> HandshakeFailed" using l
    by (induction cw wr parse_url ic host reads st rule: intercept_loop.induct) (auto split: sum.splits prod.splits option.splits if_splits)
  moreover from assms True l have "r = r1" "st' = st1" "client_closed = (r1 \<noteq> AwaitingRequest)" "tls_closed = (r1 \<noteq> AwaitingRequest)"
    by (auto simp: Intercept_def split: ending.splits)
  ultimately show ?thesis using intercept_loop_spec [OF l] by simp
qed

section \<open>WebSocket upgrades\<close>

text \<open>C11: A WebSocket upgrade never leaves an upstream connection open: each one it dialed is closed again,
  whether the upgrade fails, is refused by the server or ends after the tunnel; the tunnel runs only
  after a 101 response has been written to the client, and then the request loop is over.\<close>

theorem forwardWebSocket_closes:
  assumes "forwardWebSocket cw parse_url ic ex req host st = (r, st')"
  shows "\<exists>evs. m_events st' = m_events st @ evs
     \<and> length (filter (\<lambda>ev. ev = UpstreamDialed) evs) = length (filter (\<lambda>ev. ev = UpstreamClosed) evs)
     \<and> length (filter (\<lambda>ev. ev = UpstreamDialed) evs) \<le> 1
     \<and> (Tunnelled \<in> set evs \<longrightarrow> r = Some ErrConnectionTakenOver
          \<and> (\<exists>resp method. StatusCode resp = 101 \<and> m_out st' = m_out st @ [Response_msg (wire_of method resp (fst (ex_body ex)))]))"
proof -
  have add: "out' = out @ [Response_msg (wire_of meth resp (fst (ex_body ex)))]"
    if "Response_Write cw meth resp (ex_body ex) out = (None, out')" for meth resp out out'
    using Response_Write_out [OF that] by simp
  show ?thesis
    using assms unfolding forwardWebSocket_def Let_def
    by (auto simp: reply_status_out dest!: add split: sum.splits prod.splits option.splits if_splits) blast+
qed

section \<open>Responses without a length\<close>

lemma RoundTrip_decoded:
  assumes "RoundTrip env wr d p req rt = (Inr (resp, Decoded b), rt', flag)"
  shows "RespContentLength resp = - 1 \<and> Uncompressed resp"
  using assms by (auto simp: RoundTrip_def decodeResponse_def Let_def split: sum.splits prod.splits option.splits if_splits)

text \<open>C27: a decoded response can leave the client waiting. Take a request that is neither a WebSocket upgrade nor
  HEAD, and an answer to it that is decoded, has a status that allows a body, is not chunked, is not marked
  to close and has no Connection field; let its body be read without an error and the client take every
  write. Then it is written with no Content-Length, no Transfer-Encoding and no Connection field, so that
  nothing but the end of the connection ends it; and the interceptor waits for the next request with the
  connection open.\<close>

theorem decoded_response_hangs:
  assumes "\<not> isWebSocketUpgrade req" "upstream_request parse_url ic req host = Inr out"
    and "RoundTrip (ex_env ex) wr (Transport_Dialer ic) (Transport_Profile ic) out (m_pool st) = (Inr (resp, Decoded b), rt', flag)"
    and "Method out \<noteq> ''HEAD''" "\<not> chunked (RespTransferEncoding resp)" "\<not> RespClose resp"
    and "ex_body ex = (body, None)"
    and "bodyAllowedForStatus (StatusCode resp)" "header_index (RespHeader resp) ''Connection'' = None"
  shows "\<exists>st' w. Intercept (\<lambda>_ _. None) wr parse_url ic None host [(Inr req, ex)] st = (AwaitingRequest, st', False, False)
     \<and> m_out st' = m_out st @ [Response_msg w] \<and> Framing w = UntilClose \<and> Payload w = body
     \<and> \<not> self_delimited (Method out) resp w
     \<and> fst ` set (Fields w) \<inter> {''Connection'', ''Content-Length'', ''Transfer-Encoding''} = {}"
proof -
  note len = RoundTrip_decoded [OF assms(3)]
  have nc: "\<not> chunked (sent_coding (Method out) resp)" using assms(5) by (simp add: sent_coding_def chunked_def)
  have fr: "response_framing (Method out) resp body = UntilClose"
    using len nc assms(4) by (simp add: response_framing_def sent_length_def probed_length_def)
  have fields: "response_fields (Method out) resp body = written_fields (RespHeader resp)"
    using len nc assms(6) by (simp add: response_fields_def sends_close_def shouldSendContentLength_def sent_length_def probed_length_def)
  let ?w = "wire_of (Method out) resp body"
  have "k \<noteq> ''Connection''" if "(k, v) \<in> set (written_fields (RespHeader resp))" for k v
    using that assms(9) by (auto simp: written_fields_def split: option.splits)
  then have bare: "fst ` set (Fields ?w) \<inter> {''Connection'', ''Content-Length'', ''Transfer-Encoding''} = {}"
    using written_fields_keys by (fastforce simp: wire_of_def fields)
  then have "\<not> self_delimited (Method out) resp ?w"
    using assms(4,8) by (force simp: self_delimited_def)
  moreover have "Response_Write (\<lambda>_ _. None) (Method out) resp (body, None) o1 = (None, o1 @ [Response_msg ?w])" for o1
    by (simp add: Response_Write_def client_write_def wire_of_def fr Let_def)
  ultimately show ?thesis
    using assms(1,2,3,7) bare
    by (simp add: Intercept_def forward_def Let_def happened_def) (simp add: wire_of_def fr payload_of_def)
qed

section \<open>Whose failure it was\<close>

lemma isClientAbort_Wrapf: "isClientAbort (Some e) \<Longrightarrow> isClientAbort (Some (Wrapf p e))"
proof -
  have "Contains (ToLower (error_text e)) f \<Longrightarrow> Contains (ToLower (error_text (Wrapf p e))) f" for f
    using Contains_append(1) [of "ToLower (error_text e)" f "ToLower (p @ '': '')"] by (simp add: ToLower_def)
  then show "isClientAbort (Some e) \<Longrightarrow> isClientAbort (Some (Wrapf p e))"
    by (auto simp: isClientAbort_def simp del: error_text.simps)
qed

text \<open>A failure of the server is reported as the client's: when the upstream connection is reset, the request
  is answered 502 and the loop ends as if the client had closed its stream.\<close>

theorem upstream_reset_blamed_on_client:
  assumes "\<not> isWebSocketUpgrade req" "upstream_request parse_url ic req host = Inr out"
    and "RoundTrip (ex_env ex) wr (Transport_Dialer ic) (Transport_Profile ic) out (m_pool st) = (Inl e, rt', flag)"
    and "Contains (ToLower (error_text e)) ''connection reset by peer''" "\<not> isConnectionTakenOver e"
  shows "\<exists>st'. intercept_loop (\<lambda>_ _. None) wr parse_url ic host ((Inr req, ex) # reads) st
       = (ClientAborted (Wrapf ''upstream round trip'' e), st') \<and> m_out st' = m_out st @ [StatusReply 502]"
proof -
  have "isClientAbort (Some e)" using assms(4) by (simp add: isClientAbort_def)
  then have "isClientAbort (Some (Wrapf ''upstream round trip'' e))" by (rule isClientAbort_Wrapf)
  moreover have "\<not> isConnectionTakenOver (Wrapf ''upstream round trip'' e)"
    using assms(5) by (simp add: isConnectionTakenOver_def)
  ultimately show ?thesis
    using assms(1-3) by (simp add: forward_def reply_status_def client_write_def)
qed

section \<open>Runs\<close>

definition run_ic :: Interceptor where
  "run_ic = \<lparr>ic_CA = example_authority, ic_Profile = run_profile, Transport_Dialer = run_dialer, Transport_Profile = run_profile,
     RewriteHeaders = True, PassthroughList = []\<rparr>"

definition client_request :: Request where
  "client_request = \<lparr>Method = ''GET'', URL_Scheme = [], URL_Host = [], URL_RequestURI = ''/'', Host = ''a.io'',
     ReqHeader = [(''Connection'', [''close'']), (''Accept'', [''a'']), (''User-Agent'', [''curl''])],
     Body = Some NoBody, ReqContentLength = 0\<rparr>"

definition run_parse :: url_parser where
  "run_parse target = Inr (''https'', ''a.io'', ''/'')"

definition gzip_response :: Response where
  "gzip_response = \<lparr>StatusCode = 200, Status = ''200 OK'', Proto = ''HTTP/2.0'',
     RespHeader = [(''Content-Encoding'', [''gzip'']), (''Etag'', [''x''])],
     RespContentLength = - 1, Uncompressed = False, RespTransferEncoding = [], RespClose = False\<rparr>"

definition run_exchange :: exchange where
  "run_exchange = \<lparr>ex_env = run_env\<lparr>h2_RoundTrip := (\<lambda>i c. (Inr gzip_response, c))\<rparr>, ex_body = ([65, 66], None)\<rparr>"

definition run_mitm :: mitm_state where
  "run_mitm = \<lparr>m_pool = \<lparr>pool = [(''a.io'', 0)], conns = [run_conn]\<rparr>, m_out = [], m_events = []\<rparr>"

lemma run_upstream: "\<exists>out. upstream_request run_parse run_ic client_request ''a.io:443'' = Inr out \<and> Method out = ''GET''
    \<and> URL_Host out = ''a.io''"
proof -
  have "list_all is_token_char ''GET''" by code_simp
  then show ?thesis
    by (simp add: upstream_request_def http_NewRequest_def client_request_def run_parse_def request_target_def
        removeEmptyPort_def Let_def)
qed

theorem upstream_request_header_witness:
  "\<exists>out. upstream_request run_parse run_ic client_request ''a.io:443'' = Inr out
     \<and> header_index (ReqHeader out) ''Connection'' = None \<and> header_index (ReqHeader out) ''Accept'' = Some [''a'']
     \<and> header_index (ReqHeader out) ''User-Agent'' = Some [''u'']"
proof -
  obtain out where o: "upstream_request run_parse run_ic client_request ''a.io:443'' = Inr out" using run_upstream by blast
  have wf: "header_wf (ReqHeader client_request)" by (simp add: client_request_def header_wf_def)
  have d: "distinct (map (CanonicalHeaderKey \<circ> fst) (SetHeaders (Headers (ic_Profile run_ic))))"
    by (simp add: run_ic_def run_profile_def)
  note h = upstream_request_header [OF o wf d]
  show ?thesis
    using o h [of "''Connection''"] h [of "''Accept''"] h [of "''User-Agent''"]
    by (simp add: run_ic_def run_profile_def applied_value_def hopByHopHeaders_def client_request_def header_index_def)
qed

lemma not_websocket: "\<not> isWebSocketUpgrade client_request"
  by code_simp

theorem decoded_response_hangs_witness:
  "\<exists>st' w. Intercept (\<lambda>_ _. None) run_framer run_parse run_ic None ''a.io:443'' [(Inr client_request, run_exchange)] run_mitm
       = (AwaitingRequest, st', False, False)
     \<and> m_out st' = [Response_msg w] \<and> Framing w = UntilClose \<and> Payload w = [65, 66]"
proof -
  from run_upstream obtain out where o: "upstream_request run_parse run_ic client_request ''a.io:443'' = Inr out"
    "Method out = ''GET''" "URL_Host out = ''a.io''" by blast
  have c: "ToLower (TrimSpace (header_Get (RespHeader gzip_response) ''Content-Encoding'')) = ''gzip''" by code_simp
  have n: "header_index (header_Del (header_Del (RespHeader gzip_response) ''Content-Encoding'') ''Content-Length'') ''Connection'' = None"
    by code_simp
  have "\<exists>resp b rt'. RoundTrip (ex_env run_exchange) run_framer (Transport_Dialer run_ic) (Transport_Profile run_ic) out (m_pool run_mitm)
      = (Inr (resp, Decoded b), rt', False) \<and> RespTransferEncoding resp = [] \<and> \<not> RespClose resp
      \<and> StatusCode resp = 200 \<and> header_index (RespHeader resp) ''Connection'' = None"
    using c n o(3)
    by (simp add: RoundTrip_def roundTrip_def run_exchange_def run_mitm_def cachedH2_def CanTakeNewRequest_def run_conn_def
        use_h2_def decodeResponse_def Let_def decompressor_def run_env_def) (simp add: gzip_response_def)
  then obtain resp b rt' where r: "RoundTrip (ex_env run_exchange) run_framer (Transport_Dialer run_ic) (Transport_Profile run_ic) out (m_pool run_mitm)
      = (Inr (resp, Decoded b), rt', False)" "RespTransferEncoding resp = []" "\<not> RespClose resp"
    "StatusCode resp = 200" "header_index (RespHeader resp) ''Connection'' = None" by blast
  have s: "bodyAllowedForStatus (StatusCode resp)" "ex_body run_exchange = ([65, 66], None)"
    by (simp_all add: r(4) bodyAllowedForStatus_def run_exchange_def)
  from decoded_response_hangs [OF not_websocket o(1) r(1) _ _ r(3) s(2,1) r(5)] o(2) r(2) show ?thesis
    by (fastforce simp: chunked_def run_mitm_def)
qed

theorem Intercept_in_order_witness:
  "\<exists>r st'. Intercept (\<lambda>_ _. None) run_framer (\<lambda>_. Inl EOF) run_ic None ''a.io:443''
       [(Inr client_request, run_exchange), (Inl EOF, run_exchange)] run_mitm = (r, st', True, True)
     \<and> length (m_out st') \<le> 2 \<and> r \<noteq> AwaitingRequest"
proof -
  have "list_all is_token_char ''GET''" by code_simp
  then have "\<exists>r st'. Intercept (\<lambda>_ _. None) run_framer (\<lambda>_. Inl EOF) run_ic None ''a.io:443''
       [(Inr client_request, run_exchange), (Inl EOF, run_exchange)] run_mitm = (r, st', True, True)"
    using not_websocket
    by (simp add: Intercept_def forward_def upstream_request_def http_NewRequest_def Let_def client_request_def)
  then obtain r st' where i: "Intercept (\<lambda>_ _. None) run_framer (\<lambda>_. Inl EOF) run_ic None ''a.io:443''
       [(Inr client_request, run_exchange), (Inl EOF, run_exchange)] run_mitm = (r, st', True, True)" by blast
  from Intercept_in_order [OF i] i show ?thesis by (auto simp: run_mitm_def)
qed

lemma run_dial_websocket: "\<exists>ev. DialWithALPN run_dial_env (\<lambda>i cfg s. Inr (s, ''h2'')) None run_dialer run_profile ''a.io'' [''http/1.1''] =
  (Inr \<lparr>tls_stream = \<lparr>rx = [], rx_end = EOF, tx = [], writes_left = None\<rparr>, tls_deadline = None, conn_ALPN = ''h2''\<rparr>, ev)"
proof -
  have "fst (DialWithALPN run_dial_env (\<lambda>i cfg s. Inr (s, ''h2'')) None run_dialer run_profile ''a.io'' [''http/1.1'']) =
    Inr \<lparr>tls_stream = \<lparr>rx = [], rx_end = EOF, tx = [], writes_left = None\<rparr>, tls_deadline = None, conn_ALPN = ''h2''\<rparr>"
    by code_simp
  then show ?thesis by (metis prod.collapse)
qed

theorem forwardWebSocket_closes_witness:
  "\<exists>r st' evs. forwardWebSocket (\<lambda>_ _. None) run_parse run_ic run_exchange client_request ''a.io:443'' run_mitm = (r, st')
     \<and> m_events st' = evs \<and> UpstreamDialed \<in> set evs
     \<and> length (filter (\<lambda>ev. ev = UpstreamDialed) evs) = length (filter (\<lambda>ev. ev = UpstreamClosed) evs)"
proof -
  have "list_all is_token_char ''GET''" by code_simp
  moreover obtain ev where "DialWithALPN run_dial_env (\<lambda>i cfg s. Inr (s, ''h2'')) None run_dialer run_profile ''a.io'' [''http/1.1''] =
    (Inr \<lparr>tls_stream = \<lparr>rx = [], rx_end = EOF, tx = [], writes_left = None\<rparr>, tls_deadline = None, conn_ALPN = ''h2''\<rparr>, ev)"
    using run_dial_websocket by blast
  ultimately have "\<exists>r st'. forwardWebSocket (\<lambda>_ _. None) run_parse run_ic run_exchange client_request ''a.io:443'' run_mitm = (r, st')
     \<and> UpstreamDialed \<in> set (m_events st')"
    by (simp add: forwardWebSocket_def websocket_request_def http_NewRequest_def client_request_def run_parse_def run_ic_def
        run_exchange_def run_env_def request_target_def Let_def reply_status_out)
  then obtain r st' where f: "forwardWebSocket (\<lambda>_ _. None) run_parse run_ic run_exchange client_request ''a.io:443'' run_mitm = (r, st')"
    "UpstreamDialed \<in> set (m_events st')" by blast
  from forwardWebSocket_closes [OF f(1)] f show ?thesis by (auto simp: run_mitm_def)
qed

definition reset_exchange :: exchange where
  "reset_exchange = run_exchange\<lparr>ex_env := run_env\<lparr>h2_RoundTrip := (\<lambda>i c. (Inl (SysError ''read: connection reset by peer''), c))\<rparr>\<rparr>"

theorem upstream_reset_blamed_on_client_witness:
  "\<exists>e st'. intercept_loop (\<lambda>_ _. None) run_framer run_parse run_ic ''a.io:443'' [(Inr client_request, reset_exchange)] run_mitm
       = (ClientAborted e, st') \<and> m_out st' = [StatusReply 502]"
proof -
  from run_upstream obtain out where o: "upstream_request run_parse run_ic client_request ''a.io:443'' = Inr out"
    "URL_Host out = ''a.io''" by blast
  have b: "Body out = Some NoBody" using upstream_request_InrD(3) [OF o(1)] by (simp add: client_request_def)
  let ?e = "Wrapf ''http/2 round trip'' (SysError ''read: connection reset by peer'')"
  have "\<exists>rt'. RoundTrip (ex_env reset_exchange) run_framer (Transport_Dialer run_ic) (Transport_Profile run_ic) out (m_pool run_mitm)
      = (Inl ?e, rt', False)"
    using o(2) b
    by (simp add: RoundTrip_def roundTrip_def reset_exchange_def run_exchange_def run_mitm_def cachedH2_def CanTakeNewRequest_def
        run_conn_def use_h2_def Let_def run_env_def)
  then obtain rt' where r: "RoundTrip (ex_env reset_exchange) run_framer (Transport_Dialer run_ic) (Transport_Profile run_ic) out (m_pool run_mitm)
      = (Inl ?e, rt', False)" by blast
  have c: "Contains (ToLower (error_text ?e)) ''connection reset by peer''" by code_simp
  have t: "\<not> isConnectionTakenOver ?e" by (simp add: isConnectionTakenOver_def errors_Is_def)
  from upstream_reset_blamed_on_client [OF not_websocket o(1) r c t, of "[]"] show ?thesis
    by (auto simp: run_mitm_def)
qed

end
