(* ===== verification/Tunnel.thy ===== *)
theory Tunnel
  imports Mitm "HOL-Library.Sublist"
begin

text \<open>
  Raw byte tunnels: \<open>Passthrough\<close> and \<open>tunnel\<close> of \<open>internal/mitm/mitm.go\<close>. Both start two \<open>io.Copy\<close>
  goroutines, wait for the first of them, close the upstream connection and then the client's. An \<open>io.Copy\<close>
  reads a chunk, writes it and reads the next; either blocks until the connection is ready. The upstream
  connection carries the deadline it was dialed with: after it, reads and writes on that connection fail.
\<close>

section \<open>The code\<close>

text \<open>\<open>Passthrough\<close> up to the start of the copies: the upstream connection, or \<open>None\<close> when the dial failed and
  the client's connection is closed.\<close>

definition passthrough_timeout :: int where
  "passthrough_timeout = 30 * 1000000000"

definition passthrough_target :: "string \<Rightarrow> string" where
  "passthrough_target host = (case splitHost host of (hostname, port) \<Rightarrow> JoinHostPort hostname port)"

definition Passthrough :: "dial_env \<Rightarrow> Interceptor \<Rightarrow> string \<Rightarrow> tcp_conn option \<times> dial_event list" where
  "Passthrough env ic host =
     (case DialTCP env (Transport_Dialer ic) (passthrough_target host) passthrough_timeout of
        (Inl e, ev) \<Rightarrow> (None, ev)
      | (Inr c, ev) \<Rightarrow> (Some c, ev))"

text \<open>
  A copy waits for bytes to read, or holds a chunk of which some bytes are still to be written. \<open>up\<close> copies from
  the client to the upstream side, \<open>down\<close> back. \<open>client_in\<close> and \<open>upstream_in\<close> are the bytes that have arrived and
  are not read yet, \<open>buffered\<close> those that \<open>upstreamReader\<close> has read before the tunnel started, for a WebSocket.
  \<open>client_fin\<close> and \<open>client_reset\<close>: the client has sent its last byte, or its connection has failed.
  \<open>upstream_io\<close> logs the times at which bytes were read from or written to the upstream connection.
\<close>

datatype copy = Reads | Writes bytes | Ended

record tunnel_state =
  t_now :: int
  up :: copy
  down :: copy
  client_in :: bytes
  buffered :: bytes
  upstream_in :: bytes
  client_fin :: bool
  client_reset :: bool
  upstream_fin :: bool
  upstream_reset :: bool
  upstream_closed :: bool
  client_closed :: bool
  client_sent :: bytes
  upstream_sent :: bytes
  to_upstream :: bytes
  to_client :: bytes
  upstream_io :: "int list"

definition tunnel_start :: "int \<Rightarrow> bytes \<Rightarrow> tunnel_state" where
  "tunnel_start t bs = \<lparr>t_now = t, up = Reads, down = Reads, client_in = [], buffered = bs, upstream_in = [],
     client_fin = False, client_reset = False, upstream_fin = False, upstream_reset = False,
     upstream_closed = False, client_closed = False, client_sent = [], upstream_sent = [],
     to_upstream = [], to_client = [], upstream_io = []\<rparr>"

definition before_deadline :: "int option \<Rightarrow> tunnel_state \<Rightarrow> bool" where
  "before_deadline dl s \<longleftrightarrow> (case dl of None \<Rightarrow> True | Some d \<Rightarrow> t_now s < d)"

text \<open>When the read, or the write, a copy is in returns without a byte: at the end of the input, or with an error.\<close>

definition up_ends :: "int option \<Rightarrow> tunnel_state \<Rightarrow> bool" where
  "up_ends dl s \<longleftrightarrow>
     (case up s of
        Reads \<Rightarrow> client_closed s \<or> client_reset s \<or> client_in s = [] \<and> client_fin s
      | Writes xs \<Rightarrow> upstream_closed s \<or> upstream_reset s \<or> \<not> before_deadline dl s
      | Ended \<Rightarrow> False)"

definition down_ends :: "int option \<Rightarrow> tunnel_state \<Rightarrow> bool" where
  "down_ends dl s \<longleftrightarrow>
     (case down s of
        Reads \<Rightarrow> buffered s = [] \<and> (upstream_closed s \<or> upstream_reset s \<or> \<not> before_deadline dl s
          \<or> upstream_in s = [] \<and> upstream_fin s)
      | Writes xs \<Rightarrow> client_closed s \<or> client_reset s
      | Ended \<Rightarrow> False)"

definition copy_rest :: "bytes \<Rightarrow> copy" where
  "copy_rest xs = (if xs = [] then Reads else Writes xs)"

text \<open>The steps of the program: a read that returns, the end of a copy, and the closes after the first end.\<close>

inductive tunnel_own :: "int option \<Rightarrow> tunnel_state \<Rightarrow> tunnel_state \<Rightarrow> bool" for dl :: "int option" where
  read_up: "up s = Reads \<Longrightarrow> client_in s = xs @ ys \<Longrightarrow> xs \<noteq> [] \<Longrightarrow> \<not> client_closed s \<Longrightarrow>
     tunnel_own dl s (s\<lparr>up := Writes xs, client_in := ys\<rparr>)"
| read_buffered: "down s = Reads \<Longrightarrow> buffered s = xs @ ys \<Longrightarrow> xs \<noteq> [] \<Longrightarrow>
     tunnel_own dl s (s\<lparr>down := Writes xs, buffered := ys\<rparr>)"
| read_down: "down s = Reads \<Longrightarrow> buffered s = [] \<Longrightarrow> upstream_in s = xs @ ys \<Longrightarrow> xs \<noteq> [] \<Longrightarrow>
     \<not> upstream_closed s \<Longrightarrow> before_deadline dl s \<Longrightarrow>
     tunnel_own dl s (s\<lparr>down := Writes xs, upstream_in := ys, upstream_io := upstream_io s @ [t_now s]\<rparr>)"
| end_up: "up_ends dl s \<Longrightarrow> tunnel_own dl s (s\<lparr>up := Ended\<rparr>)"
| end_down: "down_ends dl s \<Longrightarrow> tunnel_own dl s (s\<lparr>down := Ended\<rparr>)"
| close_upstream: "up s = Ended \<or> down s = Ended \<Longrightarrow> \<not> upstream_closed s \<Longrightarrow>
     tunnel_own dl s (s\<lparr>upstream_closed := True\<rparr>)"
| close_client: "upstream_closed s \<Longrightarrow> \<not> client_closed s \<Longrightarrow> tunnel_own dl s (s\<lparr>client_closed := True\<rparr>)"

text \<open>The steps of the surroundings: bytes arrive, a side ends or fails, a side takes bytes of a write, and time passes.\<close>

inductive tunnel_env :: "int option \<Rightarrow> tunnel_state \<Rightarrow> tunnel_state \<Rightarrow> bool" for dl :: "int option" where
  client_sends: "\<not> client_fin s \<Longrightarrow> \<not> client_reset s \<Longrightarrow>
     tunnel_env dl s (s\<lparr>client_in := client_in s @ xs, client_sent := client_sent s @ xs\<rparr>)"
| upstream_sends: "\<not> upstream_fin s \<Longrightarrow> \<not> upstream_reset s \<Longrightarrow>
     tunnel_env dl s (s\<lparr>upstream_in := upstream_in s @ xs, upstream_sent := upstream_sent s @ xs\<rparr>)"
| client_ends: "tunnel_env dl s (s\<lparr>client_fin := True\<rparr>)"
| upstream_ends: "tunnel_env dl s (s\<lparr>upstream_fin := True\<rparr>)"
| client_fails: "tunnel_env dl s (s\<lparr>client_reset := True\<rparr>)"
| upstream_fails: "tunnel_env dl s (s\<lparr>upstream_reset := True\<rparr>)"
| take_up: "up s = Writes (xs @ ys) \<Longrightarrow> xs \<noteq> [] \<Longrightarrow> \<not> upstream_closed s \<Longrightarrow> \<not> upstream_reset s \<Longrightarrow> before_deadline dl s \<Longrightarrow>
     tunnel_env dl s (s\<lparr>up := copy_rest ys, to_upstream := to_upstream s @ xs, upstream_io := upstream_io s @ [t_now s]\<rparr>)"
| take_down: "down s = Writes (xs @ ys) \<Longrightarrow> xs \<noteq> [] \<Longrightarrow> \<not> client_closed s \<Longrightarrow> \<not> client_reset s \<Longrightarrow>
     tunnel_env dl s (s\<lparr>down := copy_rest ys, to_client := to_client s @ xs\<rparr>)"
| tick: "0 < d \<Longrightarrow> tunnel_env dl s (s\<lparr>t_now := t_now s + d\<rparr>)"

text \<open>A run, with the number of the program's own steps.\<close>

inductive tunnel_run :: "int option \<Rightarrow> tunnel_state \<Rightarrow> nat \<Rightarrow> tunnel_state \<Rightarrow> bool" for dl :: "int option" and s0 :: tunnel_state where
  start: "tunnel_run dl s0 0 s0"
| own: "tunnel_run dl s0 n s \<Longrightarrow> tunnel_own dl s s' \<Longrightarrow> tunnel_run dl s0 (Suc n) s'"
| env: "tunnel_run dl s0 n s \<Longrightarrow> tunnel_env dl s s' \<Longrightarrow> tunnel_run dl s0 n s'"

inductive_cases tunnel_ownE: "tunnel_own dl s s'"

inductive_cases tunnel_envE: "tunnel_env dl s s'"

text \<open>Both copies have returned and both connections are closed.\<close>

definition finished :: "tunnel_state \<Rightarrow> bool" where
  "finished s \<longleftrightarrow> up s = Ended \<and> down s = Ended \<and> upstream_closed s \<and> client_closed s"

section \<open>What a tunnel delivers\<close>

text \<open>What one side sent is what the other got, the chunk in flight and what is not read; a copy that ended may have lost some.\<close>

fun flow :: "copy \<Rightarrow> bytes \<Rightarrow> bytes \<Rightarrow> bytes \<Rightarrow> bool" where
  "flow Reads src dst left = (src = dst @ left)"
| "flow (Writes xs) src dst left = (src = dst @ xs @ left)"
| "flow Ended src dst left = (\<exists>lost. src = dst @ lost @ left)"

lemma rest_runs [simp]: "copy_rest xs \<noteq> Ended"
  by (simp add: copy_rest_def)

lemma flow_rest [simp]: "flow (copy_rest ys) src dst left = (src = dst @ ys @ left)"
  by (simp add: copy_rest_def)

lemma flow_prefix: "flow c src dst left \<Longrightarrow> prefix dst src"
  by (cases c) (auto simp: prefix_def)

lemma flow_more: "flow c src dst left \<Longrightarrow> flow c (src @ xs) dst (left @ xs)"
  by (cases c) auto

lemma flow_ended: "flow c src dst left \<Longrightarrow> flow Ended src dst left"
  by (cases c) auto

definition tunnel_inv :: "int option \<Rightarrow> bytes \<Rightarrow> nat \<Rightarrow> tunnel_state \<Rightarrow> bool" where
  "tunnel_inv dl bs n s \<longleftrightarrow>
     flow (up s) (client_sent s) (to_upstream s) (client_in s)
     \<and> flow (down s) (bs @ upstream_sent s) (to_client s) (buffered s @ upstream_in s)
     \<and> n + length (client_in s) + length (buffered s) + length (upstream_in s)
         \<le> length (client_sent s) + length bs + length (upstream_sent s) + of_bool (up s = Ended)
            + of_bool (down s = Ended) + of_bool (upstream_closed s) + of_bool (client_closed s)
     \<and> (\<forall>m d. m \<in> set (upstream_io s) \<longrightarrow> dl = Some d \<longrightarrow> m < d)"

text \<open>Why a tunnel ends, and what has been delivered while the connections are in order.\<close>

definition in_order :: "int option \<Rightarrow> tunnel_state \<Rightarrow> bool" where
  "in_order dl s \<longleftrightarrow> \<not> client_reset s \<and> \<not> upstream_reset s \<and> before_deadline dl s"

definition ends_ok :: "int option \<Rightarrow> bytes \<Rightarrow> tunnel_state \<Rightarrow> bool" where
  "ends_ok dl bs s \<longleftrightarrow>
     (client_closed s \<longrightarrow> upstream_closed s) \<and> (upstream_closed s \<longrightarrow> up s = Ended \<or> down s = Ended)
     \<and> (up s = Ended \<or> down s = Ended \<longrightarrow> in_order dl s \<longrightarrow> client_fin s \<or> upstream_fin s)
     \<and> (in_order dl s \<longrightarrow> \<not> upstream_closed s \<longrightarrow>
          (up s = Ended \<longrightarrow> client_fin s \<and> to_upstream s = client_sent s)
          \<and> (down s = Ended \<longrightarrow> upstream_fin s \<and> to_client s = bs @ upstream_sent s))"

lemma tunnel_inv_own: "tunnel_own dl s s' \<Longrightarrow> tunnel_inv dl bs n s \<Longrightarrow> tunnel_inv dl bs (Suc n) s'"
proof (erule tunnel_ownE, goal_cases)
  case (4)
  then show ?case by (auto simp: tunnel_inv_def up_ends_def intro: flow_ended split: copy.splits)
next
  case 5
  then show ?case by (auto simp: tunnel_inv_def down_ends_def intro: flow_ended split: copy.splits)
qed (auto simp: tunnel_inv_def before_deadline_def neq_Nil_conv)

lemma tunnel_inv_env: "tunnel_env dl s s' \<Longrightarrow> tunnel_inv dl bs n s \<Longrightarrow> tunnel_inv dl bs n s'"
  by (erule tunnel_envE) (auto simp: tunnel_inv_def before_deadline_def copy_rest_def dest: flow_more [where xs = "_"])

text \<open>What a step keeps, and what it takes for a copy to end or a connection to be closed.\<close>

lemma own_effect:
  assumes "tunnel_own dl s s'"
  shows "in_order dl s' = in_order dl s \<and> client_fin s' = client_fin s \<and> upstream_fin s' = upstream_fin s
     \<and> client_sent s' = client_sent s \<and> upstream_sent s' = upstream_sent s
     \<and> to_upstream s' = to_upstream s \<and> to_client s' = to_client s"
    and "up s = Ended \<Longrightarrow> up s' = Ended" "down s = Ended \<Longrightarrow> down s' = Ended"
    and "up s' = Ended \<Longrightarrow> up s = Ended \<or> up_ends dl s" "down s' = Ended \<Longrightarrow> down s = Ended \<or> down_ends dl s"
    and "upstream_closed s \<Longrightarrow> upstream_closed s'" "upstream_closed s' \<Longrightarrow> upstream_closed s \<or> up s = Ended \<or> down s = Ended"
    and "client_closed s' \<Longrightarrow> client_closed s \<or> upstream_closed s"
  using assms by (auto simp: in_order_def before_deadline_def elim!: tunnel_ownE split: option.splits)

lemma env_effect:
  assumes "tunnel_env dl s s'"
  shows "client_closed s' = client_closed s \<and> upstream_closed s' = upstream_closed s"
    and "up s' = Ended \<longleftrightarrow> up s = Ended" "down s' = Ended \<longleftrightarrow> down s = Ended"
    and "client_fin s \<Longrightarrow> client_fin s' \<and> client_sent s' = client_sent s"
    and "upstream_fin s \<Longrightarrow> upstream_fin s' \<and> upstream_sent s' = upstream_sent s"
    and "up s = Ended \<Longrightarrow> to_upstream s' = to_upstream s" "down s = Ended \<Longrightarrow> to_client s' = to_client s"
    and "in_order dl s' \<Longrightarrow> in_order dl s"
  using assms by (auto simp: in_order_def before_deadline_def elim!: tunnel_envE split: option.splits)

text \<open>A copy that ends while all is in order has delivered all.\<close>

lemma up_ends_in_order:
  assumes "up_ends dl s" "tunnel_inv dl bs n s" "in_order dl s" "\<not> upstream_closed s" "client_closed s \<longrightarrow> upstream_closed s"
  shows "client_fin s \<and> to_upstream s = client_sent s"
  using assms by (auto simp: up_ends_def in_order_def tunnel_inv_def split: copy.splits)

lemma down_ends_in_order:
  assumes "down_ends dl s" "tunnel_inv dl bs n s" "in_order dl s" "\<not> upstream_closed s" "client_closed s \<longrightarrow> upstream_closed s"
  shows "upstream_fin s \<and> to_client s = bs @ upstream_sent s"
  using assms by (auto simp: down_ends_def in_order_def tunnel_inv_def split: copy.splits)

lemma ends_okD:
  assumes "ends_ok dl bs s"
  shows "client_closed s \<longrightarrow> upstream_closed s" "upstream_closed s \<Longrightarrow> up s = Ended \<or> down s = Ended"
    and "up s = Ended \<or> down s = Ended \<Longrightarrow> in_order dl s \<Longrightarrow> client_fin s \<or> upstream_fin s"
    and "in_order dl s \<Longrightarrow> \<not> upstream_closed s \<Longrightarrow> up s = Ended \<Longrightarrow> client_fin s \<and> to_upstream s = client_sent s"
    and "in_order dl s \<Longrightarrow> \<not> upstream_closed s \<Longrightarrow> down s = Ended \<Longrightarrow> upstream_fin s \<and> to_client s = bs @ upstream_sent s"
  using assms unfolding ends_ok_def by blast+

lemma ends_ok_own:
  assumes "tunnel_own dl s s'" "tunnel_inv dl bs n s" "ends_ok dl bs s"
  shows "ends_ok dl bs s'"
  unfolding ends_ok_def
proof (intro conjI impI)
  note e = ends_okD [OF assms(3)] and o = own_effect [OF assms(1)] and i = assms(2)
  show "client_closed s' \<Longrightarrow> upstream_closed s'" using e(1) o(6,8) by blast
  show "upstream_closed s' \<Longrightarrow> up s' = Ended \<or> down s' = Ended" using e(2) o(2,3,7) by blast
  {
    assume c: "in_order dl s'" "\<not> upstream_closed s'" "up s' = Ended"
    then have "client_fin s \<and> to_upstream s = client_sent s"
      using e(1,4) o(1,4,6) up_ends_in_order [OF _ i] by blast
    with o(1) show "client_fin s'" "to_upstream s' = client_sent s'" by simp_all
  next
    assume c: "in_order dl s'" "\<not> upstream_closed s'" "down s' = Ended"
    then have "upstream_fin s \<and> to_client s = bs @ upstream_sent s"
      using e(1,5) o(1,5,6) down_ends_in_order [OF _ i] by blast
    with o(1) show "upstream_fin s'" "to_client s' = bs @ upstream_sent s'" by simp_all
  next
    assume c: "up s' = Ended \<or> down s' = Ended" "in_order dl s'"
    then have "client_fin s \<or> upstream_fin s"
      using e(1,2,3) o(1,4,5) up_ends_in_order [OF _ i] down_ends_in_order [OF _ i] by blast
    with o(1) show "client_fin s' \<or> upstream_fin s'" by simp
  }
qed

lemma ends_ok_env:
  assumes "tunnel_env dl s s'" "ends_ok dl bs s"
  shows "ends_ok dl bs s'"
  unfolding ends_ok_def
proof (intro conjI impI)
  note e = ends_okD [OF assms(2)] and o = env_effect [OF assms(1)]
  show "client_closed s' \<Longrightarrow> upstream_closed s'" using e(1) o(1) by blast
  show "upstream_closed s' \<Longrightarrow> up s' = Ended \<or> down s' = Ended" using e(2) o(1,2,3) by blast
  show "up s' = Ended \<or> down s' = Ended \<Longrightarrow> in_order dl s' \<Longrightarrow> client_fin s' \<or> upstream_fin s'"
    using e(3) o(2,3,4,5,8) by blast
  show "client_fin s'" "to_upstream s' = client_sent s'" if "in_order dl s'" "\<not> upstream_closed s'" "up s' = Ended"
    using that e(4) o(1,2,4,6,8) by auto
  show "upstream_fin s'" "to_client s' = bs @ upstream_sent s'" if "in_order dl s'" "\<not> upstream_closed s'" "down s' = Ended"
    using that e(5) o(1,3,5,7,8) by auto
qed

lemma tunnel_run_inv: "tunnel_run dl (tunnel_start t bs) n s \<Longrightarrow> tunnel_inv dl bs n s \<and> ends_ok dl bs s"
proof (induction rule: tunnel_run.induct)
  case start
  show ?case by (simp add: tunnel_inv_def ends_ok_def tunnel_start_def)
next
  case (own n s s')
  then show ?case using tunnel_inv_own ends_ok_own by blast
next
  case (env n s s')
  then show ?case using tunnel_inv_env ends_ok_env by blast
qed

text \<open>What keeps a tunnel from finishing: its first copy has not ended.\<close>

lemma stuck_finished:
  assumes "\<And>s'. \<not> tunnel_own dl s s'" "up s = Ended \<or> down s = Ended"
  shows "finished s"
proof -
  have c: "upstream_closed s" "client_closed s"
    using assms tunnel_own.close_upstream tunnel_own.close_client by blast+
  have "\<not> up_ends dl s" "\<not> down_ends dl s" using assms(1) tunnel_own.end_up tunnel_own.end_down by blast+
  moreover have "down s = Reads \<longrightarrow> buffered s = []" using assms(1) tunnel_own.read_buffered [of s "buffered s" "[]"] by auto
  ultimately show ?thesis using c by (auto simp: finished_def up_ends_def down_ends_def split: copy.splits)
qed

lemma finished_stuck: "finished s \<Longrightarrow> \<not> tunnel_own dl s s'"
  by (auto simp: finished_def up_ends_def down_ends_def elim: tunnel_ownE)

text \<open>C24: A tunnel delivers and ends. However reads, writes, the two sides and time are interleaved, each side has
  received a prefix of what the other sent, unchanged and in order, and all of it when a copy has ended while no
  connection had failed, run out of time or been closed. The tunnel itself makes no more steps than
  there were bytes sent or buffered, two ends of copies and two closes. It closes nothing before a copy has ended, and without a failure or
  a deadline no copy ends before a side has sent its last byte: an idle tunnel waits. Once a copy has ended, the
  tunnel can only come to rest when both copies have returned and both connections are closed.\<close>

theorem tunnel_terminates:
  assumes "tunnel_run dl (tunnel_start t bs) n s"
  shows "prefix (to_upstream s) (client_sent s) \<and> prefix (to_client s) (bs @ upstream_sent s)
     \<and> (\<not> client_reset s \<and> \<not> upstream_reset s \<and> before_deadline dl s \<and> \<not> upstream_closed s \<longrightarrow>
          (up s = Ended \<longrightarrow> client_fin s \<and> to_upstream s = client_sent s)
          \<and> (down s = Ended \<longrightarrow> upstream_fin s \<and> to_client s = bs @ upstream_sent s))
     \<and> n \<le> length (client_sent s) + length bs + length (upstream_sent s) + 4
     \<and> (upstream_closed s \<or> client_closed s \<longrightarrow> up s = Ended \<or> down s = Ended)
     \<and> (up s = Ended \<or> down s = Ended \<longrightarrow>
          client_fin s \<or> upstream_fin s \<or> client_reset s \<or> upstream_reset s \<or> \<not> before_deadline dl s)
     \<and> ((up s = Ended \<or> down s = Ended) \<and> (\<nexists>s'. tunnel_own dl s s') \<longleftrightarrow> finished s)"
proof -
  from tunnel_run_inv [OF assms] have i: "tunnel_inv dl bs n s" and e: "ends_ok dl bs s" by simp_all
  have "prefix (to_upstream s) (client_sent s)" "prefix (to_client s) (bs @ upstream_sent s)"
    using i flow_prefix by (auto simp: tunnel_inv_def)
  moreover have "n \<le> length (client_sent s) + length bs + length (upstream_sent s) + 4"
    using i by (simp add: tunnel_inv_def of_bool_def split: if_splits)
  moreover have "(up s = Ended \<or> down s = Ended) \<and> (\<nexists>s'. tunnel_own dl s s') \<longleftrightarrow> finished s"
  proof
    assume "(up s = Ended \<or> down s = Ended) \<and> (\<nexists>s'. tunnel_own dl s s')"
    then show "finished s" by (intro stuck_finished [of dl]) simp_all
  next
    assume f: "finished s"
    then have "up s = Ended" by (simp add: finished_def)
    with finished_stuck [OF f] show "(up s = Ended \<or> down s = Ended) \<and> (\<nexists>s'. tunnel_own dl s s')" by simp
  qed
  moreover have "\<not> client_reset s \<and> \<not> upstream_reset s \<and> before_deadline dl s \<and> \<not> upstream_closed s \<longrightarrow>
      (up s = Ended \<longrightarrow> client_fin s \<and> to_upstream s = client_sent s)
      \<and> (down s = Ended \<longrightarrow> upstream_fin s \<and> to_client s = bs @ upstream_sent s)"
    using ends_okD(4,5) [OF e] by (simp add: in_order_def)
  moreover have "upstream_closed s \<or> client_closed s \<longrightarrow> up s = Ended \<or> down s = Ended"
    using ends_okD(1,2) [OF e] by blast
  moreover have "up s = Ended \<or> down s = Ended \<longrightarrow>
      client_fin s \<or> upstream_fin s \<or> client_reset s \<or> upstream_reset s \<or> \<not> before_deadline dl s"
    using ends_okD(3) [OF e] by (auto simp: in_order_def)
  ultimately show ?thesis by (intro conjI)
qed

text \<open>C25: A passthrough tunnel that was dialed through the upstream proxy reads nothing from the upstream connection and writes
  nothing to it once the thirty seconds of its dial have passed; a chunk that was read in time may still go
  to a slow client. From then on, unless the client is taking such a chunk, the tunnel can only come to rest
  with both connections closed.\<close>

theorem passthrough_tunnel_dies:
  assumes "Passthrough env ic host = (Some c, ev)" "UpstreamProxy (Transport_Dialer ic) \<noteq> None"
    and "SplitHostPort (passthrough_target host) = Inr (h, p)" "\<not> matchesBypass (BypassList (Transport_Dialer ic)) h"
    and "tunnel_run (deadline c) (tunnel_start t bs) n s"
  shows "(\<forall>m. m \<in> set (upstream_io s) \<longrightarrow> m < now env + passthrough_timeout)
     \<and> (now env + passthrough_timeout \<le> t_now s \<and> (\<forall>xs. down s \<noteq> Writes xs)
          \<and> (\<nexists>s'. tunnel_own (deadline c) s s') \<longrightarrow> finished s)"
proof -
  from assms(1) have d: "DialTCP env (Transport_Dialer ic) (passthrough_target host) passthrough_timeout = (Inr c, ev)"
    by (auto simp: Passthrough_def split: sum.splits prod.splits)
  from DialTCP_deadline [OF d] assms(2-4) obtain dl where dl: "deadline c = Some dl" "dl \<le> now env + passthrough_timeout"
    by auto
  from tunnel_run_inv [OF assms(5)] dl have "\<forall>m. m \<in> set (upstream_io s) \<longrightarrow> m < now env + passthrough_timeout"
    by (fastforce simp: tunnel_inv_def)
  moreover have "finished s" if late: "now env + passthrough_timeout \<le> t_now s" and "\<forall>xs. down s \<noteq> Writes xs"
    and no: "\<nexists>s'. tunnel_own (deadline c) s s'"
  proof (rule stuck_finished)
    have "\<not> before_deadline (deadline c) s" using late dl by (simp add: before_deadline_def)
    moreover have "\<not> down_ends (deadline c) s" using no tunnel_own.end_down by blast
    moreover have "down s = Reads \<longrightarrow> buffered s = []" using no tunnel_own.read_buffered [of s "buffered s" "[]"] by auto
    ultimately show "up s = Ended \<or> down s = Ended"
      using that(2) by (cases "down s") (auto simp: down_ends_def)
  qed (use no in blast)
  ultimately show ?thesis by blast
qed

section \<open>Runs\<close>

definition tunnel_conn :: conn where
  "tunnel_conn = \<lparr>rx = [5, 0, 5, 0, 0, 1, 0, 0, 0, 0, 0, 0], rx_end = EOF, tx = [], writes_left = None\<rparr>"

definition tunnel_dial :: dial_env where
  "tunnel_dial = \<lparr>now = 0, ctx_deadline = None, DialContext = (\<lambda>_. Inr tunnel_conn), SetDeadline_fails = None\<rparr>"

definition tunnel_ic :: Interceptor where
  "tunnel_ic = run_ic\<lparr>Transport_Dialer := run_dialer\<lparr>UpstreamProxy := Some \<lparr>Scheme = ''socks5'', Address = ''p:1080'', Auth = None\<rparr>\<rparr>\<rparr>"

text \<open>The client sends a byte and ends; the byte goes up, the first copy returns, and the second follows.\<close>

lemma tunnel_ends:
  "\<exists>s. tunnel_run None (tunnel_start 0 []) 5 s \<and> finished s \<and> client_sent s = [1] \<and> to_upstream s = [1]"
proof -
  let ?s0 = "tunnel_start 0 []"
  let ?s1 = "?s0\<lparr>client_in := [1], client_sent := [1]\<rparr>"
  let ?s2 = "?s1\<lparr>up := Writes [1], client_in := []\<rparr>"
  let ?s3 = "?s2\<lparr>up := Reads, to_upstream := [1], upstream_io := [0]\<rparr>"
  let ?s4 = "?s3\<lparr>client_fin := True\<rparr>"
  let ?s5 = "?s4\<lparr>up := Ended\<rparr>"
  let ?s6 = "?s5\<lparr>upstream_closed := True\<rparr>"
  let ?s7 = "?s6\<lparr>client_closed := True\<rparr>"
  let ?s8 = "?s7\<lparr>down := Ended\<rparr>"
  note own = tunnel_run.own and env = tunnel_run.env
  have 1: "tunnel_env None ?s0 ?s1" using tunnel_env.client_sends [of ?s0 None "[1]"] by (simp add: tunnel_start_def)
  have 2: "tunnel_own None ?s1 ?s2" by (rule tunnel_own.read_up) (simp_all add: tunnel_start_def)
  have 3: "tunnel_env None ?s2 ?s3"
    using tunnel_env.take_up [of ?s2 "[1]" "[]" None] by (simp add: tunnel_start_def before_deadline_def copy_rest_def)
  have 4: "tunnel_env None ?s3 ?s4" by (rule tunnel_env.client_ends)
  have 5: "tunnel_own None ?s4 ?s5" by (rule tunnel_own.end_up) (simp add: tunnel_start_def up_ends_def)
  have 6: "tunnel_own None ?s5 ?s6" by (rule tunnel_own.close_upstream) (simp_all add: tunnel_start_def)
  have 7: "tunnel_own None ?s6 ?s7" by (rule tunnel_own.close_client) (simp_all add: tunnel_start_def)
  have 8: "tunnel_own None ?s7 ?s8" by (rule tunnel_own.end_down) (simp add: tunnel_start_def down_ends_def)
  from own [OF own [OF own [OF own [OF env [OF env [OF own [OF env [OF tunnel_run.start 1] 2] 3] 4] 5] 6] 7] 8]
  have "tunnel_run None ?s0 5 ?s8" by (simp add: eval_nat_numeral)
  then show ?thesis by (intro exI [of _ ?s8]) (simp add: finished_def)
qed

theorem tunnel_terminates_witness:
  "\<exists>s :: tunnel_state. tunnel_run None (tunnel_start 0 []) 5 s \<and> finished s \<and> prefix (to_upstream s) [1]
     \<and> (\<nexists>s'. tunnel_own None s s')"
proof -
  obtain s where s: "tunnel_run None (tunnel_start 0 []) 5 s" "finished s" "client_sent s = [1]"
    using tunnel_ends by blast
  from tunnel_terminates [OF s(1)] s show ?thesis by (intro exI [of _ s]) simp
qed

text \<open>A byte that the upstream side has sent is read in time; the client takes it when the deadline has passed, and the
  tunnel ends.\<close>

lemma tunnel_late:
  "\<exists>s. tunnel_run (Some 30000000000) (tunnel_start 0 []) 5 s \<and> upstream_io s = [0] \<and> to_client s = [7]
     \<and> t_now s = 31000000000 \<and> finished s"
proof -
  let ?d = "Some 30000000000 :: int option"
  let ?s0 = "tunnel_start 0 []"
  let ?s1 = "?s0\<lparr>upstream_in := [7], upstream_sent := [7]\<rparr>"
  let ?s2 = "?s1\<lparr>down := Writes [7], upstream_in := [], upstream_io := [0]\<rparr>"
  let ?s3 = "?s2\<lparr>t_now := 31000000000\<rparr>"
  let ?s4 = "?s3\<lparr>down := Reads, to_client := [7]\<rparr>"
  let ?s5 = "?s4\<lparr>down := Ended\<rparr>"
  let ?s6 = "?s5\<lparr>upstream_closed := True\<rparr>"
  let ?s7 = "?s6\<lparr>client_closed := True\<rparr>"
  let ?s8 = "?s7\<lparr>up := Ended\<rparr>"
  note own = tunnel_run.own and env = tunnel_run.env
  have 1: "tunnel_env ?d ?s0 ?s1"
    using tunnel_env.upstream_sends [of ?s0 ?d "[7]"] by (simp add: tunnel_start_def)
  have 2: "tunnel_own ?d ?s1 ?s2"
    using tunnel_own.read_down [of ?s1 "[7]" "[]" ?d] by (simp add: tunnel_start_def before_deadline_def)
  have 3: "tunnel_env ?d ?s2 ?s3" using tunnel_env.tick [of 31000000000 ?d ?s2] by (simp add: tunnel_start_def)
  have 4: "tunnel_env ?d ?s3 ?s4"
    using tunnel_env.take_down [of ?s3 "[7]" "[]" ?d] by (simp add: tunnel_start_def copy_rest_def)
  have 5: "tunnel_own ?d ?s4 ?s5"
    by (rule tunnel_own.end_down) (simp add: tunnel_start_def down_ends_def before_deadline_def)
  have 6: "tunnel_own ?d ?s5 ?s6" by (rule tunnel_own.close_upstream) (simp_all add: tunnel_start_def)
  have 7: "tunnel_own ?d ?s6 ?s7" by (rule tunnel_own.close_client) (simp_all add: tunnel_start_def)
  have 8: "tunnel_own ?d ?s7 ?s8" by (rule tunnel_own.end_up) (simp add: tunnel_start_def up_ends_def)
  from own [OF own [OF own [OF own [OF env [OF env [OF own [OF env [OF tunnel_run.start 1] 2] 3] 4] 5] 6] 7] 8]
  have "tunnel_run ?d ?s0 5 ?s8" by (simp add: eval_nat_numeral)
  then show ?thesis by (intro exI [of _ ?s8]) (simp add: finished_def)
qed

theorem passthrough_tunnel_dies_witness:
  "\<exists>c ev s m. Passthrough tunnel_dial tunnel_ic ''a.io'' = (Some c, ev) \<and> tunnel_run (deadline c) (tunnel_start 0 []) 5 s
     \<and> upstream_io s = [m] \<and> m < 30000000000 \<and> t_now s = 31000000000 \<and> to_client s = [7] \<and> finished s"
proof -
  have split: "SplitHostPort (passthrough_target ''a.io'') = Inr (''a.io'', ''443'')" by code_simp
  have "fst (Passthrough tunnel_dial tunnel_ic ''a.io'') = Some \<lparr>stream = tunnel_conn\<lparr>rx := [],
     tx := [5, 1, 0, 5, 1, 0, 3, 4, 97, 46, 105, 111, 1, 187]\<rparr>, deadline = Some 30000000000\<rparr>"
    by code_simp
  then obtain c ev where p: "Passthrough tunnel_dial tunnel_ic ''a.io'' = (Some c, ev)" "deadline c = Some 30000000000"
    by (metis (no_types) tcp_conn.select_convs(2) prod.collapse)
  obtain s where s: "tunnel_run (deadline c) (tunnel_start 0 []) 5 s" "upstream_io s = [0]" "to_client s = [7]"
    "t_now s = 31000000000" "finished s"
    using tunnel_late p(2) by auto
  have "\<forall>m. m \<in> set (upstream_io s) \<longrightarrow> m < now tunnel_dial + passthrough_timeout"
    by (rule conjunct1 [OF passthrough_tunnel_dies [OF p(1) _ split _ s(1)]])
       (simp_all add: tunnel_ic_def run_dialer_def run_ic_def)
  then have "(0 :: int) < 30000000000" using s(2) by (simp add: tunnel_dial_def passthrough_timeout_def)
  with p s show ?thesis by (intro exI [of _ c] exI [of _ ev] exI [of _ s] exI [of _ 0]) simp
qed

end
