(* ===== verification/Proxy_Server.thy ===== *)
theory Proxy_Server
  imports Tunnel Socks_Server
begin

text \<open>
  \<open>internal/proxy/server.go\<close>, \<open>http.go\<close> and \<open>handleSOCKS5\<close> of \<open>socks5.go\<close>: a client connection from
  \<open>Accept\<close> to the moment it is handed to the interceptor, and the accept loop with its goroutines.

  The client's connection is a \<open>conn\<close>: what the client sends, and what was written to it. The peeking
  reader consumes nothing by peeking. \<open>http.ReadRequest\<close> on the plain connection is the parameter
  \<open>parse_request\<close>: it gives the request and the bytes behind it.
\<close>

section \<open>One connection\<close>

definition handshakeTimeout :: int where
  "handshakeTimeout = 30 * 1000000000"

text \<open>
  What becomes of the connection: closed by the handler, or handed over with its target. The record
  also has the stream as it stands and the read deadline that is left on it.
\<close>

datatype handover = ClosedByHandler | ToPassthrough string | ToIntercept string

record client_conn =
  c_stream :: conn
  c_deadline :: "int option"
  c_handover :: handover

type_synonym request_parser = "bytes \<Rightarrow> go_error + (Request \<times> bytes)"

definition closed_conn :: "int option \<Rightarrow> conn \<Rightarrow> client_conn" where
  "closed_conn dl c = \<lparr>c_stream = c, c_deadline = dl, c_handover = ClosedByHandler\<rparr>"

text \<open>The common end of both handlers: the deadline is cleared, then passthrough or interception.\<close>

definition hand_over :: "Interceptor \<Rightarrow> string \<Rightarrow> conn \<Rightarrow> client_conn" where
  "hand_over ic target c =
     (let clear = None
      in if MatchesPassthrough (PassthroughList ic) target
         then \<lparr>c_stream = c, c_deadline = clear, c_handover = ToPassthrough target\<rparr>
         else \<lparr>c_stream = c, c_deadline = clear, c_handover = ToIntercept target\<rparr>)"

definition handleSOCKS5 :: "Interceptor \<Rightarrow> int option \<Rightarrow> conn \<Rightarrow> client_conn" where
  "handleSOCKS5 ic dl pc =
     (case socks5Negotiate pc of
        (Inl e, pc) \<Rightarrow> closed_conn dl pc
      | (Inr target, pc) \<Rightarrow> hand_over ic target pc)"

definition connect_established :: bytes where
  "connect_established = bytes_of (''HTTP/1.1 200 Connection Established'' @ crlf @ crlf)"

definition handleHTTP :: "request_parser \<Rightarrow> Interceptor \<Rightarrow> int option \<Rightarrow> conn \<Rightarrow> client_conn" where
  "handleHTTP parse_request ic dl pc =
     (case parse_request (rx pc) of
        Inl e \<Rightarrow> closed_conn dl pc
      | Inr (req, rest) \<Rightarrow>
          (let pc = pc\<lparr>rx := rest\<rparr>
           in if Method req \<noteq> ''CONNECT'' then closed_conn dl (snd (io_write (writeHTTPStatus 501) pc))
              else case io_write connect_established pc of
                  (Inl e, pc) \<Rightarrow> closed_conn dl pc
                | (Inr _, pc) \<Rightarrow> hand_over ic (Host req) pc))"

definition handle :: "request_parser \<Rightarrow> Interceptor \<Rightarrow> int \<Rightarrow> go_error option \<Rightarrow> conn \<Rightarrow> client_conn" where
  "handle parse_request ic clock deadline_err c =
     (if deadline_err \<noteq> None then closed_conn None c
      else let dl = Some (clock + handshakeTimeout)
        in case rx c of
             [] \<Rightarrow> closed_conn dl c
           | first # _ \<Rightarrow>
               if first = 0x05 then handleSOCKS5 ic dl c
               else if first = 0x04 then closed_conn dl c
               else handleHTTP parse_request ic dl c)"

section \<open>What a handler leaves\<close>

text \<open>C8: A connection leaves its handler closed, or handed over for the rest of its life without the
  negotiation's deadline and never both. It is handed over only for a target the client asked for, in a
  SOCKS5 exchange or by an HTTP CONNECT that was confirmed, and it goes past the interceptor exactly
  when that target matches the passthrough list.\<close>

theorem handle_hands_over:
  "c_handover (handle parse_request ic clock deadline_err c) = ClosedByHandler
   \<or> (\<exists>target c'. handle parse_request ic clock deadline_err c = \<lparr>c_stream = c', c_deadline = None,
          c_handover = (if MatchesPassthrough (PassthroughList ic) target then ToPassthrough target else ToIntercept target)\<rparr>
        \<and> (hd (rx c) = 0x05 \<and> socks5Negotiate c = (Inr target, c')
           \<or> (\<exists>req. parse_request (rx c) = Inr (req, rx c') \<and> Method req = ''CONNECT'' \<and> Host req = target
                \<and> tx c' = tx c @ connect_established)))"
proof (cases "deadline_err = None \<and> rx c \<noteq> [] \<and> hd (rx c) \<noteq> 0x04")
  case False
  then show ?thesis by (cases "rx c") (auto simp: handle_def closed_conn_def)
next
  case True
  then obtain b r where rx: "rx c = b # r" "b \<noteq> 0x04" and d: "deadline_err = None" by (cases "rx c") auto
  let ?dl = "Some (clock + handshakeTimeout)"
  show ?thesis
  proof (cases "b = 0x05")
    case True
    with rx d have h: "handle parse_request ic clock deadline_err c = handleSOCKS5 ic ?dl c" by (simp add: handle_def)
    obtain res c' where n: "socks5Negotiate c = (res, c')" by force
    show ?thesis
    proof (cases res)
      case (Inl e)
      with n show ?thesis unfolding h by (simp add: handleSOCKS5_def closed_conn_def)
    next
      case (Inr target)
      with n have "handleSOCKS5 ic ?dl c = hand_over ic target c'" by (simp add: handleSOCKS5_def)
      with rx True n Inr show ?thesis unfolding h
        by (intro disjI2 exI [of _ target] exI [of _ c']) (simp add: hand_over_def)
    qed
  next
    case False
    with rx d have h: "handle parse_request ic clock deadline_err c = handleHTTP parse_request ic ?dl c" by (simp add: handle_def)
    show ?thesis
    proof (cases "parse_request (rx c)")
      case (Inl e)
      then show ?thesis unfolding h by (simp add: handleHTTP_def closed_conn_def)
    next
      case (Inr rr)
      then obtain req rest where p: "parse_request (rx c) = Inr (req, rest)" by (cases rr) simp
      obtain res c' where w: "io_write connect_established (c\<lparr>rx := rest\<rparr>) = (res, c')" by force
      then have tx: "tx c' = tx c @ connect_established \<and> rx c' = rest" if "res = Inr ()"
        using that by (auto simp: io_write_def split: option.splits nat.splits)
      show ?thesis
      proof (cases "Method req = ''CONNECT'' \<and> res = Inr ()")
        case False
        with p w show ?thesis unfolding h by (cases res) (auto simp: handleHTTP_def closed_conn_def Let_def)
      next
        case True
        with p w have "handleHTTP parse_request ic ?dl c = hand_over ic (Host req) c'" by (simp add: handleHTTP_def)
        with p tx True show ?thesis unfolding h
          by (intro disjI2 exI [of _ "Host req"] exI [of _ c']) (simp add: hand_over_def)
      qed
    qed
  qed
qed

text \<open>C12: A SOCKS5 client that asks for a destination the way the protocol says is answered and handed on with
  exactly the bytes that follow its request, the start of its TLS stream.\<close>

theorem handle_socks5:
  assumes "rx c = greeting_bytes methods @ connect_bytes rsv dest port @ tls" "length methods \<le> 255" "dest_ok dest"
    and "port < 65536" "writes_left c = None" "target = JoinHostPort (dest_text dest) (itoa port)"
  shows "handle parse_request ic clock None c =
     \<lparr>c_stream = c\<lparr>rx := tls, tx := tx c @ [5, 0, 5, 0, 0, 1, 0, 0, 0, 0, 0, 0]\<rparr>, c_deadline = None,
      c_handover = (if MatchesPassthrough (PassthroughList ic) target then ToPassthrough target else ToIntercept target)\<rparr>"
proof -
  obtain r where "rx c = 5 # r" using assms(1) by (simp add: greeting_bytes_def socks5_consts)
  then show ?thesis
    using negotiate_accepts [OF assms(2,3,4,1,5)] assms(6)
    by (simp add: handle_def handleSOCKS5_def hand_over_def socks5_reply_def socks5_consts)
qed

text \<open>An HTTP client gets a tunnel only by CONNECT, which is confirmed before the connection is handed on with
  the bytes behind the request; any other method is answered 501 and nothing else, and closed.\<close>

theorem handle_http:
  assumes "rx c = b # r" "b \<noteq> 0x05" "b \<noteq> 0x04" "parse_request (rx c) = Inr (req, rest)" "writes_left c = None"
  shows "handle parse_request ic clock None c =
     (if Method req = ''CONNECT''
      then \<lparr>c_stream = c\<lparr>rx := rest, tx := tx c @ connect_established\<rparr>, c_deadline = None,
            c_handover = (if MatchesPassthrough (PassthroughList ic) (Host req) then ToPassthrough (Host req)
                          else ToIntercept (Host req))\<rparr>
      else \<lparr>c_stream = c\<lparr>rx := rest, tx := tx c @ writeHTTPStatus 501\<rparr>, c_deadline = Some (clock + handshakeTimeout),
            c_handover = ClosedByHandler\<rparr>)"
  using assms by (simp add: handle_def handleHTTP_def closed_conn_def hand_over_def io_write_def Let_def)

section \<open>The accept loop\<close>

text \<open>
  \<open>Serve\<close>: the loop, the goroutine that closes the listener when the context is cancelled, and one
  goroutine per accepted connection. \<open>inflight\<close> are the connections whose handler has not returned, by
  number; \<open>looping\<close> is false once the loop waits in \<open>wg.Wait\<close>.
\<close>

record server =
  cancelled :: bool
  ln_closed :: bool
  looping :: bool
  accepted :: nat
  inflight :: "nat set"
  warnings :: nat
  returned :: bool

definition server_start :: server where
  "server_start = \<lparr>cancelled = False, ln_closed = False, looping = True, accepted = 0, inflight = {}, warnings = 0,
     returned = False\<rparr>"

text \<open>\<open>ln.Accept\<close> returned an error: with the context cancelled the loop is left, otherwise it goes on.\<close>

definition accept_error :: "server \<Rightarrow> server" where
  "accept_error s = (if cancelled s then s\<lparr>looping := False\<rparr> else s\<lparr>warnings := warnings s + 1\<rparr>)"

definition accept_conn :: "server \<Rightarrow> server" where
  "accept_conn s = s\<lparr>accepted := accepted s + 1, inflight := insert (accepted s) (inflight s)\<rparr>"

inductive serve_step :: "server \<Rightarrow> server \<Rightarrow> bool" where
  cancel: "serve_step s (s\<lparr>cancelled := True\<rparr>)"
| close_listener: "cancelled s \<Longrightarrow> serve_step s (s\<lparr>ln_closed := True\<rparr>)"
| accept: "looping s \<Longrightarrow> \<not> ln_closed s \<Longrightarrow> serve_step s (accept_conn s)"
| accept_failed: "looping s \<Longrightarrow> serve_step s (accept_error s)"
| handled: "i \<in> inflight s \<Longrightarrow> serve_step s (s\<lparr>inflight := inflight s - {i}\<rparr>)"
| return: "\<not> looping s \<Longrightarrow> inflight s = {} \<Longrightarrow> serve_step s (s\<lparr>returned := True\<rparr>)"

inductive serve_reach :: "server \<Rightarrow> bool" where
  start: "serve_reach server_start"
| stepped: "serve_reach s \<Longrightarrow> serve_step s s' \<Longrightarrow> serve_reach s'"

inductive_cases serve_stepE: "serve_step s s'"

definition serve_inv :: "server \<Rightarrow> bool" where
  "serve_inv s \<longleftrightarrow> (\<not> looping s \<longrightarrow> cancelled s) \<and> (ln_closed s \<longrightarrow> cancelled s)
     \<and> (returned s \<longrightarrow> \<not> looping s \<and> inflight s = {}) \<and> inflight s \<subseteq> {..<accepted s}"

lemma serve_step_inv: "serve_step s s' \<Longrightarrow> serve_inv s \<Longrightarrow> serve_inv s'"
  by (erule serve_stepE) (auto simp: serve_inv_def accept_conn_def accept_error_def less_Suc_eq)

lemma serve_reach_inv: "serve_reach s \<Longrightarrow> serve_inv s"
proof (induction rule: serve_reach.induct)
  case start
  show ?case by (simp add: serve_inv_def server_start_def)
next
  case (stepped s s')
  then show ?case by (blast intro: serve_step_inv)
qed

text \<open>C26: The server returns only when its context is cancelled and every connection it accepted has been
  handled; its listener is closed only by the cancellation, and no failure of \<open>Accept\<close> stops it before
  that.\<close>

theorem Serve_graceful:
  assumes "serve_reach s"
  shows "(returned s \<longrightarrow> cancelled s \<and> inflight s = {}) \<and> (ln_closed s \<longrightarrow> cancelled s)
     \<and> (\<not> cancelled s \<longrightarrow> looping s \<and> looping (accept_error s) \<and> inflight (accept_error s) = inflight s)"
  using serve_reach_inv [OF assms] by (auto simp: serve_inv_def accept_error_def)

section \<open>Runs\<close>

theorem handle_socks5_witness:
  "handle (\<lambda>_. Inl EOF) run_ic 0 None
     \<lparr>rx = greeting_bytes [0, 2] @ connect_bytes 0 (DestHost ''example.com'') 443 @ [0x16, 3], rx_end = EOF, tx = [], writes_left = None\<rparr>
   = \<lparr>c_stream = \<lparr>rx = [0x16, 3], rx_end = EOF, tx = [5, 0, 5, 0, 0, 1, 0, 0, 0, 0, 0, 0], writes_left = None\<rparr>,
      c_deadline = None, c_handover = ToIntercept ''example.com:443''\<rparr>"
proof -
  have "''example.com:443'' = JoinHostPort (dest_text (DestHost ''example.com'')) (itoa 443)" by code_simp
  moreover have "\<not> MatchesPassthrough (PassthroughList run_ic) ''example.com:443''" by code_simp
  ultimately show ?thesis
    using handle_socks5 [of "\<lparr>rx = greeting_bytes [0, 2] @ connect_bytes 0 (DestHost ''example.com'') 443 @ [0x16, 3], rx_end = EOF, tx = [], writes_left = None\<rparr>"
        "[0, 2]" 0 "DestHost ''example.com''" 443 "[0x16, 3]" "''example.com:443''" "\<lambda>_. Inl EOF" run_ic 0]
    by simp
qed

theorem handle_http_witness:
  "c_handover (handle (\<lambda>_. Inr (client_request, [])) run_ic 0 None \<lparr>rx = [71, 69, 84], rx_end = EOF, tx = [], writes_left = None\<rparr>)
     = ClosedByHandler"
  using handle_http [of "\<lparr>rx = [71, 69, 84], rx_end = EOF, tx = [], writes_left = None\<rparr>" 71 "[69, 84]"
      "\<lambda>_. Inr (client_request, [])" client_request "[]" run_ic 0]
  by (simp add: client_request_def)

theorem Serve_graceful_witness:
  "\<exists>s. serve_reach s \<and> returned s \<and> accepted s = 1 \<and> cancelled s"
proof -
  note step = serve_reach.stepped
  let ?s1 = "accept_conn server_start"
  have 1: "serve_reach ?s1" by (rule step [OF serve_reach.start serve_step.accept]) (simp_all add: server_start_def)
  let ?s2 = "accept_error (?s1\<lparr>cancelled := True\<rparr>)"
  have 2: "serve_reach ?s2"
    by (rule step [OF step [OF 1 serve_step.cancel] serve_step.accept_failed]) (simp add: accept_conn_def server_start_def)
  let ?s3 = "?s2\<lparr>inflight := inflight ?s2 - {0}\<rparr>"
  have 3: "serve_reach ?s3"
    by (rule step [OF 2 serve_step.handled]) (simp add: accept_error_def accept_conn_def server_start_def)
  have 4: "serve_reach (?s3\<lparr>returned := True\<rparr>)"
    by (rule step [OF 3 serve_step.return]) (simp_all add: accept_error_def accept_conn_def server_start_def)
  from Serve_graceful [OF 4] show ?thesis
    by (intro exI [of _ "?s3\<lparr>returned := True\<rparr>"] conjI 4) (simp_all add: accept_error_def accept_conn_def server_start_def)
qed

end
