(* ===== verification/Launch.thy ===== *)
theory Launch
  imports Host_Match
begin

text \<open>
  \<open>internal/launch/launch.go\<close>: the environment and the command line of a child application that
  is to send its HTTPS traffic through the proxy. A Go map that is ranged over (\<open>updates\<close>) is an
  association list in one of its orders; the child reads the environment by name.
\<close>

section \<open>The code\<close>

record Options =
  ProxyAddr :: string
  CACertPath :: string
  IncludeEnv :: bool
  IncludeChromium :: bool
  ProxyAllSchemes :: bool
  LaunchBypass :: string

definition defaultBypassList :: string where
  "defaultBypassList = ''<local>''"

definition env_updates :: "Options \<Rightarrow> (string \<times> string) list" where
  "env_updates opts =
     (let proxyURL = ''http://'' @ ProxyAddr opts
      in [(''HTTPS_PROXY'', proxyURL), (''https_proxy'', proxyURL),
          (''NO_PROXY'', ''localhost,127.0.0.1,::1''), (''no_proxy'', ''localhost,127.0.0.1,::1''),
          (''REQUESTS_CA_BUNDLE'', CACertPath opts), (''NODE_EXTRA_CA_CERTS'', CACertPath opts),
          (''SSL_CERT_FILE'', CACertPath opts)])"

definition env_drop :: "string list" where
  "env_drop = [''HTTP_PROXY'', ''http_proxy'', ''ALL_PROXY'', ''all_proxy'']"

definition env_entry :: "string \<Rightarrow> string \<Rightarrow> string" where
  "env_entry name value = name @ ''='' @ value"

fun rewrite_env ::
  "(string \<times> string) list \<Rightarrow> string list \<Rightarrow> string list \<Rightarrow> string list \<Rightarrow> string list \<times> string list" where
  "rewrite_env updates [] out seen = (out, seen)"
| "rewrite_env updates (entry # base) out seen =
     (case Cut entry ''='' of (name, _, ok) \<Rightarrow>
        if \<not> ok then rewrite_env updates base (out @ [entry]) seen
        else if List.member env_drop name then rewrite_env updates base out seen
        else case map_of updates name of
            Some value \<Rightarrow> rewrite_env updates base (out @ [env_entry name value]) (name # seen)
          | None \<Rightarrow> rewrite_env updates base (out @ [entry]) seen)"

definition ProxyEnv :: "string list \<Rightarrow> Options \<Rightarrow> string list" where
  "ProxyEnv base opts =
     (case rewrite_env (env_updates opts) base [] [] of
        (out, seen) \<Rightarrow> out @ map (\<lambda>(name, value). env_entry name value)
                           (filter (\<lambda>(name, value). \<not> List.member seen name) (env_updates opts)))"

definition AppendChromiumArgs :: "string list \<Rightarrow> Options \<Rightarrow> string list" where
  "AppendChromiumArgs args opts =
     (let proxyRule = (if ProxyAllSchemes opts then ''http://'' @ ProxyAddr opts
                       else ''https=http://'' @ ProxyAddr opts);
          bypass = (if TrimSpace (LaunchBypass opts) = [] then defaultBypassList else LaunchBypass opts)
      in args @ [''--proxy-server='' @ proxyRule] @ [''--proxy-bypass-list='' @ bypass])"

text \<open>What \<open>Command\<close> sets of an \<open>exec.Cmd\<close>: no environment of its own means the parent's.\<close>

record Cmd =
  Path :: string
  Args :: "string list"
  Env :: "string list option"

definition Command :: "string list \<Rightarrow> Options \<Rightarrow> string list \<Rightarrow> go_error + Cmd" where
  "Command environ opts argv =
     (if argv = [] then Inl (Errorf ''no command provided'')
      else if TrimSpace (ProxyAddr opts) = [] then Inl (Errorf ''proxy address is required'')
      else let args = (if IncludeChromium opts then AppendChromiumArgs (tl argv) opts else tl argv)
        in Inr \<lparr>Path = hd argv, Args = args,
                Env = (if IncludeEnv opts then Some (ProxyEnv environ opts) else None)\<rparr>)"

section \<open>What the child sees\<close>

text \<open>The value of a variable: the last entry of that name counts.\<close>

definition getenv :: "string list \<Rightarrow> string \<Rightarrow> string option" where
  "getenv env name =
     fold (\<lambda>entry acc. case Cut entry ''='' of (n, v, ok) \<Rightarrow> if ok \<and> n = name then Some v else acc) env None"

lemma str_index_char: "CHR ''='' \<notin> set n \<Longrightarrow> str_index (n @ CHR ''='' # v) ''='' = Some (length n)"
  by (induction n) (auto simp: HasPrefix_Cons)

lemma Cut_env_entry: "CHR ''='' \<notin> set n \<Longrightarrow> Cut (env_entry n v) ''='' = (n, v, True)"
  by (simp add: Cut_def env_entry_def str_index_char)

lemma getenv_Nil [simp]: "getenv [] name = None"
  by (simp add: getenv_def)

lemma getenv_snoc [simp]:
  "getenv (env @ [entry]) name =
     (case Cut entry ''='' of (n, v, ok) \<Rightarrow> if ok \<and> n = name then Some v else getenv env name)"
  by (simp add: getenv_def split: prod.split)

lemma env_update_names: "(name, value) \<in> set (env_updates opts) \<Longrightarrow> CHR ''='' \<notin> set name \<and> name \<notin> set env_drop"
  by (auto simp: env_updates_def env_drop_def Let_def)

lemma env_updates_distinct: "distinct (map fst (env_updates opts))"
  by (simp add: env_updates_def Let_def)

text \<open>The environment the child is meant to have.\<close>

definition child_env :: "(string \<times> string) list \<Rightarrow> string list \<Rightarrow> string \<Rightarrow> string option" where
  "child_env updates base name =
     (if name \<in> set env_drop then None else case map_of updates name of Some v \<Rightarrow> Some v | None \<Rightarrow> getenv base name)"

lemma rewrite_env_getenv:
  assumes "\<And>n v. (n, v) \<in> set ups \<Longrightarrow> CHR ''='' \<notin> set n \<and> n \<notin> set env_drop"
    and "\<And>n. getenv out n = (if n \<in> set env_drop then None else case map_of ups n of
            Some v \<Rightarrow> (if n \<in> set seen then Some v else None) | None \<Rightarrow> getenv pre n)"
    and "rewrite_env ups base out seen = (out', seen')"
  shows "getenv out' n = (if n \<in> set env_drop then None else case map_of ups n of
            Some v \<Rightarrow> (if n \<in> set seen' then Some v else None) | None \<Rightarrow> getenv (pre @ base) n)"
  using assms(2,3)
proof (induction base arbitrary: out seen pre)
  case (Cons entry base)
  obtain name val ok where c: "Cut entry ''='' = (name, val, ok)" by (cases "Cut entry ''=''") auto
  let ?next = "\<lambda>out seen. rewrite_env ups base out seen = (out', seen')"
  have step: ?case if "?next o2 s2"
    and "\<And>n. getenv o2 n = (if n \<in> set env_drop then None else case map_of ups n of
            Some v \<Rightarrow> (if n \<in> set s2 then Some v else None) | None \<Rightarrow> getenv (pre @ [entry]) n)" for o2 s2
    using Cons.IH [OF that(2,1)] by (simp only: append_assoc append_Cons append_Nil)
  consider "\<not> ok" | "ok" "name \<in> set env_drop"
    | v where "ok" "name \<notin> set env_drop" "map_of ups name = Some v"
    | "ok" "name \<notin> set env_drop" "map_of ups name = None" by fastforce
  then show ?case
  proof cases
    case 1
    then show ?thesis using Cons.prems c by (intro step [of "out @ [entry]" seen]) (auto split: option.split)
  next
    case 2
    then show ?thesis
      using Cons.prems c assms(1) by (intro step [of out seen]) (auto split: option.split dest: map_of_SomeD)
  next
    case (3 v)
    have "CHR ''='' \<notin> set name" using assms(1) map_of_SomeD [OF 3(3)] by blast
    note cut = Cut_env_entry [OF this]
    show ?thesis
      using Cons.prems c 3 cut by (intro step [of "out @ [env_entry name v]" "name # seen"]) (auto split: option.split)
  next
    case 4
    then show ?thesis using Cons.prems c by (intro step [of "out @ [entry]" seen]) (auto split: option.split)
  qed
qed (auto split: option.split)

lemma getenv_append_updates:
  assumes "\<And>n v. (n, v) \<in> set ups \<Longrightarrow> CHR ''='' \<notin> set n" "distinct (map fst ups)"
  shows "getenv (out @ map (\<lambda>(n, v). env_entry n v) ups) name =
     (case map_of ups name of Some v \<Rightarrow> Some v | None \<Rightarrow> getenv out name)"
  using assms
proof (induction ups rule: rev_induct)
  case (snoc u ups)
  obtain n v where u: "u = (n, v)" by force
  with snoc.prems have cut: "Cut (env_entry n v) ''='' = (n, v, True)" by (intro Cut_env_entry) auto
  have ih: "getenv (out @ map (\<lambda>(n, v). env_entry n v) ups) name =
     (case map_of ups name of Some v \<Rightarrow> Some v | None \<Rightarrow> getenv out name)"
    using snoc by auto
  have "n = name \<Longrightarrow> map_of ups name = None" using snoc.prems(2) u by (simp add: map_of_eq_None_iff)
  then show ?case using cut ih u by (auto simp: map_add_def split: option.split simp flip: append_assoc)
qed simp

text \<open>C39: the child's environment is the parent's with the seven proxy and CA variables set, the four generic
  proxy variables gone, and every other variable untouched, whatever the parent had of them.\<close>

theorem ProxyEnv_child:
  "getenv (ProxyEnv base opts) name = child_env (env_updates opts) base name"
proof -
  let ?ups = "env_updates opts"
  obtain out seen where r: "rewrite_env ?ups base [] [] = (out, seen)" by force
  have g: "getenv out n = (if n \<in> set env_drop then None else case map_of ?ups n of
            Some v \<Rightarrow> (if n \<in> set seen then Some v else None) | None \<Rightarrow> getenv base n)" for n
  proof -
    have "getenv out n = (if n \<in> set env_drop then None else case map_of ?ups n of
            Some v \<Rightarrow> (if n \<in> set seen then Some v else None) | None \<Rightarrow> getenv ([] @ base) n)"
      by (rule rewrite_env_getenv [OF _ _ r]) (use env_update_names in \<open>auto split: option.split\<close>)
    then show ?thesis by (simp only: append_Nil)
  qed
  let ?rest = "filter (\<lambda>(n, v). \<not> List.member seen n) ?ups"
  have m: "map_of ?rest name = (if name \<in> set seen then None else map_of ?ups name)"
  proof -
    have "map_of (filter (\<lambda>(n, v). \<not> List.member seen n) l) name = (if name \<in> set seen then None else map_of l name)"
      for l :: "(string \<times> string) list" by (induction l) auto
    then show ?thesis .
  qed
  have "getenv (ProxyEnv base opts) name = (case map_of ?rest name of Some v \<Rightarrow> Some v | None \<Rightarrow> getenv out name)"
    unfolding ProxyEnv_def r prod.case
    by (rule getenv_append_updates) (use env_update_names env_updates_distinct in \<open>auto simp: distinct_map_filter\<close>)
  then show ?thesis
    using g [of name] m env_update_names by (auto simp: child_env_def split: option.split dest: map_of_SomeD)
qed

text \<open>A Chromium child bypasses the proxy for the hosts the flag names, \<open><local>\<close> when it names none, and
  its command line ends with exactly the two switches for that, after the arguments it was given.\<close>

theorem Command_chromium:
  "(\<exists>rule bypass. AppendChromiumArgs args opts = args @ [''--proxy-server='' @ rule, ''--proxy-bypass-list='' @ bypass]
     \<and> HasSuffix rule (''http://'' @ ProxyAddr opts) \<and> (ProxyAllSchemes opts \<longleftrightarrow> rule = ''http://'' @ ProxyAddr opts)
     \<and> TrimSpace bypass \<noteq> [])"
proof -
  let ?rule = "if ProxyAllSchemes opts then ''http://'' @ ProxyAddr opts else ''https=http://'' @ ProxyAddr opts"
  let ?bypass = "if TrimSpace (LaunchBypass opts) = [] then defaultBypassList else LaunchBypass opts"
  have "TrimSpace defaultBypassList \<noteq> []" by code_simp
  moreover have "HasSuffix ?rule (''http://'' @ ProxyAddr opts)"
    by (auto simp: HasSuffix_iff intro: exI [of _ "''https=''"])
  ultimately show ?thesis
    by (intro exI [of _ ?rule] exI [of _ ?bypass]) (simp add: AppendChromiumArgs_def Let_def)
qed

end
