(* ===== verification/Profile_Registry.thy ===== *)
theory Profile_Registry
  imports Profile
begin

text \<open>
  The profiles a run can choose from: \<open>registerProfile\<close>, \<open>Load\<close> and \<open>LoadDir\<close> of
  \<open>profile.go\<close>, \<open>Builtin\<close> and \<open>BuiltinNames\<close> of \<open>embed.go\<close> and the merge of
  built-in and user profiles in \<open>cmd/doppel/main.go\<close>. The JSON decoder
  (\<open>json.Unmarshal\<close> into a \<open>Profile\<close>) is the parameter \<open>decode\<close>; a directory is the list of its
  entries, each with what \<open>os.ReadFile\<close> gives for it.
\<close>

type_synonym registry = "(string \<times> Profile) list"

definition reg_lookup :: "registry \<Rightarrow> string \<Rightarrow> Profile option" where
  "reg_lookup out n = map_of out n"

fun register_names :: "string list \<Rightarrow> Profile \<Rightarrow> registry \<Rightarrow> go_error + registry" where
  "register_names [] p out = Inr out"
| "register_names (name # rest) p out =
     (let name = TrimSpace name
      in if reg_lookup out name \<noteq> None
         then Inl (Errorf (''duplicate profile name or alias '' @ quote name))
         else register_names rest p (AList.update name p out))"

definition registerProfile :: "registry \<Rightarrow> Profile \<Rightarrow> go_error + registry" where
  "registerProfile out p = register_names (Name p # Aliases p) p out"

definition parse_profile :: "(string \<Rightarrow> go_error + Profile) \<Rightarrow> string \<Rightarrow> go_error + Profile" where
  "parse_profile decode data =
     (case decode data of
        Inl e \<Rightarrow> Inl (Wrapf ''decode profile'' e)
      | Inr p \<Rightarrow> (case Validate p of Some e \<Rightarrow> Inl e | None \<Rightarrow> Inr p))"

definition Load ::
  "(string \<Rightarrow> go_error + Profile) \<Rightarrow> go_error + string \<Rightarrow> go_error + Profile" where
  "Load decode contents =
     (case contents of
        Inl e \<Rightarrow> Inl (Wrapf ''read profile'' e)
      | Inr data \<Rightarrow> parse_profile decode data)"

record dir_entry =
  EntryName :: string
  IsDir :: bool
  Contents :: "go_error + string"

fun load_entries ::
  "(string \<Rightarrow> go_error + Profile) \<Rightarrow> dir_entry list \<Rightarrow> registry \<Rightarrow> go_error + registry" where
  "load_entries decode [] out = Inr out"
| "load_entries decode (e # es) out =
     (if IsDir e \<or> \<not> HasSuffix (EntryName e) ''.json'' then load_entries decode es out
      else case Load decode (Contents e) of
        Inl err \<Rightarrow> Inl err
      | Inr p \<Rightarrow>
          (case registerProfile out p of
             Inl err \<Rightarrow> Inl err
           | Inr out' \<Rightarrow> load_entries decode es out'))"

definition LoadDir ::
  "(string \<Rightarrow> go_error + Profile) \<Rightarrow> go_error + dir_entry list \<Rightarrow> go_error + registry" where
  "LoadDir decode dir =
     (case dir of
        Inl e \<Rightarrow> Inl (Wrapf ''read profile directory'' e)
      | Inr es \<Rightarrow> load_entries decode es [])"

fun builtin_entries ::
  "(string \<Rightarrow> go_error + Profile) \<Rightarrow> dir_entry list \<Rightarrow> registry \<Rightarrow> go_error + registry" where
  "builtin_entries decode [] out = Inr out"
| "builtin_entries decode (e # es) out =
     (if IsDir e \<or> \<not> HasSuffix (EntryName e) ''.json'' then builtin_entries decode es out
      else case Contents e of
        Inl err \<Rightarrow> Inl (Wrapf (''read builtin profile '' @ EntryName e) err)
      | Inr data \<Rightarrow>
          (case parse_profile decode data of
             Inl err \<Rightarrow> Inl (Wrapf (''builtin profile '' @ EntryName e) err)
           | Inr p \<Rightarrow>
               (case registerProfile out p of
                  Inl err \<Rightarrow> Inl (Wrapf (''builtin profile '' @ EntryName e) err)
                | Inr out' \<Rightarrow> builtin_entries decode es out')))"

definition Builtin ::
  "(string \<Rightarrow> go_error + Profile) \<Rightarrow> go_error + dir_entry list \<Rightarrow> go_error + registry" where
  "Builtin decode dir =
     (case dir of
        Inl e \<Rightarrow> Inl (Wrapf ''read builtin profiles'' e)
      | Inr es \<Rightarrow> builtin_entries decode es [])"

text \<open>\<open>for name, p := range profiles\<close> keeps the canonical names; the aliases are dropped.\<close>

definition canonical_names :: "registry \<Rightarrow> string list" where
  "canonical_names out = sort_Strings (map fst (filter (\<lambda>(name, p). Name p = name) out))"

definition BuiltinNames ::
  "(string \<Rightarrow> go_error + Profile) \<Rightarrow> go_error + dir_entry list \<Rightarrow> go_error + string list" where
  "BuiltinNames decode dir =
     (case Builtin decode dir of Inl e \<Rightarrow> Inl e | Inr out \<Rightarrow> Inr (canonical_names out))"

text \<open>\<open>profiles[name] = p\<close> for every user profile, over the built-in ones.\<close>

definition merge_user :: "registry \<Rightarrow> registry \<Rightarrow> registry" where
  "merge_user builtin user = fold (\<lambda>(name, p) out. AList.update name p out) user builtin"

definition merge_source :: "registry \<Rightarrow> registry \<Rightarrow> (string \<times> string) list" where
  "merge_source builtin user =
     fold (\<lambda>(name, p) src. AList.update name ''user'' src) user
       (map (\<lambda>(name, p). (name, ''builtin'')) builtin)"

text \<open>\<open>user_dir = None\<close>: the profiles directory does not exist (\<open>os.Stat\<close> fails).\<close>

definition allProfiles ::
  "(string \<Rightarrow> go_error + Profile) \<Rightarrow> go_error + dir_entry list \<Rightarrow>
   (go_error + dir_entry list) option \<Rightarrow> go_error + (registry \<times> (string \<times> string) list)" where
  "allProfiles decode builtin_dir user_dir =
     (case Builtin decode builtin_dir of
        Inl e \<Rightarrow> Inl e
      | Inr profiles \<Rightarrow>
          (case user_dir of
             None \<Rightarrow> Inr (profiles, merge_source profiles [])
           | Some dir \<Rightarrow>
               (case LoadDir decode dir of
                  Inl e \<Rightarrow> Inl e
                | Inr user \<Rightarrow> Inr (merge_user profiles user, merge_source profiles user))))"

definition loadProfile ::
  "(string \<Rightarrow> go_error + Profile) \<Rightarrow> go_error + dir_entry list \<Rightarrow>
   (go_error + dir_entry list) option \<Rightarrow> string \<Rightarrow> go_error + Profile" where
  "loadProfile decode builtin_dir user_dir name =
     (case allProfiles decode builtin_dir user_dir of
        Inl e \<Rightarrow> Inl e
      | Inr (profiles, _) \<Rightarrow>
          (case reg_lookup profiles name of
             None \<Rightarrow> Inl (Errorf (''unknown profile '' @ quote name @
                             '' (run 'doppel profiles' to list them)''))
           | Some p \<Rightarrow> Inr p))"

section \<open>Registration\<close>

lemma reg_lookup_update [simp]:
  "reg_lookup (AList.update n p out) m = (if m = n then Some p else reg_lookup out m)"
  by (simp add: reg_lookup_def update_conv')

lemma register_names_Inr:
  "register_names ns p out = Inr out' \<Longrightarrow>
     distinct (map TrimSpace ns) \<and> list_all (\<lambda>n. reg_lookup out (TrimSpace n) = None) ns
     \<and> (\<forall>m. reg_lookup out' m = (if m \<in> TrimSpace ` set ns then Some p else reg_lookup out m))"
proof (induction ns arbitrary: out)
  case (Cons n ns)
  let ?n = "TrimSpace n"
  from Cons.prems have n: "reg_lookup out ?n = None"
    and r: "register_names ns p (AList.update ?n p out) = Inr out'"
    by (auto simp: Let_def split: if_splits)
  from Cons.IH [OF r] n show ?case
    by (auto simp: list_all_iff split: if_splits)
qed simp

lemma register_names_Inr_iff:
  "(\<exists>out'. register_names ns p out = Inr out') \<longleftrightarrow>
     distinct (map TrimSpace ns) \<and> list_all (\<lambda>n. reg_lookup out (TrimSpace n) = None) ns"
proof (induction ns arbitrary: out)
  case (Cons n ns)
  then show ?case by (auto simp: Let_def list_all_iff) (metis image_eqI)
qed simp

lemma registerProfile_Inr:
  assumes "registerProfile out p = Inr out'"
  shows "distinct (profile_names p)" "list_all (\<lambda>n. reg_lookup out n = None) (profile_names p)"
    and "reg_lookup out' m = (if m \<in> set (profile_names p) then Some p else reg_lookup out m)"
  using register_names_Inr [OF assms [unfolded registerProfile_def]]
  by (simp_all add: profile_names_def list_all_iff)

lemma registerProfile_Inr_iff:
  "(\<exists>out'. registerProfile out p = Inr out') \<longleftrightarrow>
     distinct (profile_names p) \<and> list_all (\<lambda>n. reg_lookup out n = None) (profile_names p)"
  unfolding registerProfile_def register_names_Inr_iff profile_names_def list.pred_map comp_def ..

text \<open>A profile is registered exactly when its trimmed name and aliases are pairwise distinct and
  free, and then exactly those names, and no others, resolve to it.\<close>

theorem registerProfile_spec:
  "(\<exists>out'. registerProfile out p = Inr out'
      \<and> (\<forall>m. reg_lookup out' m = (if m \<in> set (profile_names p) then Some p else reg_lookup out m)))
   \<longleftrightarrow> distinct (profile_names p) \<and> list_all (\<lambda>n. reg_lookup out n = None) (profile_names p)"
  unfolding registerProfile_Inr_iff [symmetric]
  using registerProfile_Inr(3) by (intro iffI; elim exE) blast+

section \<open>The registry a directory yields\<close>

text \<open>Every entry is a valid profile under one of its own names, and all of its names lead to it.\<close>

definition registry_ok :: "registry \<Rightarrow> bool" where
  "registry_ok out \<longleftrightarrow>
     (\<forall>n p. reg_lookup out n = Some p \<longrightarrow>
        Validate p = None \<and> n \<in> set (profile_names p)
        \<and> (\<forall>m\<in>set (profile_names p). reg_lookup out m = Some p))"

lemma registry_okD:
  assumes "registry_ok out" "reg_lookup out n = Some p"
  shows "Validate p = None" "n \<in> set (profile_names p)"
    and "m \<in> set (profile_names p) \<Longrightarrow> reg_lookup out m = Some p"
  using assms unfolding registry_ok_def by blast+

lemma registry_ok_Nil: "registry_ok []"
  by (simp add: registry_ok_def reg_lookup_def)

lemma registry_ok_register:
  assumes ok: "registry_ok out" and v: "Validate p = None"
    and r: "registerProfile out p = Inr out'"
  shows "registry_ok out'"
proof -
  note new = registerProfile_Inr(3) [OF r]
  have free: "reg_lookup out m = None" if "m \<in> set (profile_names p)" for m
    using registerProfile_Inr(2) [OF r] that by (simp add: list_all_iff)
  show ?thesis
    unfolding registry_ok_def
  proof (intro allI impI)
    fix n q
    assume n: "reg_lookup out' n = Some q"
    show "Validate q = None \<and> n \<in> set (profile_names q)
        \<and> (\<forall>m\<in>set (profile_names q). reg_lookup out' m = Some q)"
    proof (cases "n \<in> set (profile_names p)")
      case True
      with n new have "q = p" by simp
      with True v new show ?thesis by simp
    next
      case False
      with n new have "reg_lookup out n = Some q" by simp
      note q = registry_okD [OF ok this]
      have "m \<notin> set (profile_names p)" if "m \<in> set (profile_names q)" for m
        using free [of m] q(3) [OF that] by auto
      with q new show ?thesis by simp
    qed
  qed
qed

lemma parse_profile_valid: "parse_profile decode data = Inr p \<Longrightarrow> Validate p = None"
  by (auto simp: parse_profile_def split: sum.splits option.splits)

lemma Load_valid: "Load decode c = Inr p \<Longrightarrow> Validate p = None"
  by (auto simp: Load_def parse_profile_valid split: sum.splits)

lemma load_entries_ok:
  "registry_ok out \<Longrightarrow> load_entries decode es out = Inr out' \<Longrightarrow> registry_ok out'"
  by (induction es arbitrary: out)
    (auto split: if_splits sum.splits dest: Load_valid registry_ok_register)

lemma builtin_entries_ok:
  "registry_ok out \<Longrightarrow> builtin_entries decode es out = Inr out' \<Longrightarrow> registry_ok out'"
  by (induction es arbitrary: out)
    (auto split: if_splits sum.splits dest: parse_profile_valid registry_ok_register)

lemma LoadDir_registry_ok: "LoadDir decode dir = Inr out \<Longrightarrow> registry_ok out"
  by (auto simp: LoadDir_def dest: load_entries_ok [OF registry_ok_Nil] split: sum.splits)

lemma Builtin_registry_ok: "Builtin decode dir = Inr out \<Longrightarrow> registry_ok out"
  by (auto simp: Builtin_def dest: builtin_entries_ok [OF registry_ok_Nil] split: sum.splits)

section \<open>Built-in and user profiles together\<close>

lemma fold_update_lookup:
  "distinct (map fst us) \<Longrightarrow>
   map_of (fold (\<lambda>(n, p) out. AList.update n (f n p) out) us bs) m =
     (case map_of us m of Some p \<Rightarrow> Some (f m p) | None \<Rightarrow> map_of bs m)"
proof (induction us arbitrary: bs)
  case (Cons u us)
  obtain n p where u: "u = (n, p)" by force
  with Cons.prems have "map_of us n = None" by (simp add: map_of_eq_None_iff)
  with Cons u show ?case by (auto simp: update_conv' split: option.split)
qed simp

lemma register_names_distinct:
  "distinct (map fst out) \<Longrightarrow> register_names ns p out = Inr out' \<Longrightarrow> distinct (map fst out')"
  by (induction ns arbitrary: out) (auto simp: Let_def intro: distinct_update split: if_splits)

lemma registerProfile_distinct:
  "distinct (map fst out) \<Longrightarrow> registerProfile out p = Inr out' \<Longrightarrow> distinct (map fst out')"
  unfolding registerProfile_def by (rule register_names_distinct)

lemma load_entries_distinct:
  "distinct (map fst out) \<Longrightarrow> load_entries decode es out = Inr out' \<Longrightarrow> distinct (map fst out')"
  by (induction es arbitrary: out)
    (auto split: if_splits sum.splits dest: registerProfile_distinct)

lemma LoadDir_distinct: "LoadDir decode dir = Inr out \<Longrightarrow> distinct (map fst out)"
  by (auto simp: LoadDir_def split: sum.splits intro: load_entries_distinct [of "[]"])

lemma load_profile:
  assumes "loadProfile decode builtin_dir (Some user_dir) name = Inr p"
  shows "\<exists>builtin user. Builtin decode builtin_dir = Inr builtin \<and> LoadDir decode user_dir = Inr user
     \<and> Validate p = None \<and> name \<in> set (profile_names p)
     \<and> (case reg_lookup user name of Some q \<Rightarrow> p = q | None \<Rightarrow> reg_lookup builtin name = Some p)"
proof -
  from assms obtain builtin user where b: "Builtin decode builtin_dir = Inr builtin"
    and u: "LoadDir decode user_dir = Inr user"
    and l: "reg_lookup (merge_user builtin user) name = Some p"
    by (auto simp: loadProfile_def allProfiles_def split: sum.splits option.splits)
  have "reg_lookup (merge_user builtin user) name =
      (case reg_lookup user name of Some q \<Rightarrow> Some q | None \<Rightarrow> reg_lookup builtin name)"
    using fold_update_lookup [OF LoadDir_distinct [OF u], of "\<lambda>n p. p" builtin name]
    by (simp add: merge_user_def reg_lookup_def split: option.split)
  with l have r: "case reg_lookup user name of Some q \<Rightarrow> p = q | None \<Rightarrow> reg_lookup builtin name = Some p"
    by (cases "reg_lookup user name") simp_all
  then have "Validate p = None \<and> name \<in> set (profile_names p)"
    using registry_okD(1,2) [OF Builtin_registry_ok [OF b]] registry_okD(1,2) [OF LoadDir_registry_ok [OF u]]
    by (cases "reg_lookup user name") simp_all
  with b u r show ?thesis by blast
qed

text \<open>Loading a profile by name gives a valid profile that has this name, taken from the user's
  directory when it defines the name there and from the built-in ones otherwise.\<close>

theorem loadProfile_resolves:
  assumes "loadProfile decode builtin_dir (Some user_dir) name = Inr p"
  shows "\<exists>builtin user. Builtin decode builtin_dir = Inr builtin \<and> LoadDir decode user_dir = Inr user
     \<and> Validate p = None \<and> name \<in> set (profile_names p)
     \<and> (case reg_lookup user name of Some q \<Rightarrow> p = q | None \<Rightarrow> reg_lookup builtin name = Some p)"
  using assms by (rule load_profile)

end
