(* ===== verification/Wizard.thy ===== *)
theory Wizard
  imports Go_Strings
begin

text \<open>
  \<open>internal/wizard/wizard.go\<close>: the setup guide printed after the local CA is generated. The operating
  system (\<open>runtime.GOOS\<close>) is an argument.
\<close>

section \<open>The code\<close>

definition newline :: string where
  "newline = [CHR 0x0A]"

definition Fprintln :: "string \<Rightarrow> string" where
  "Fprintln s = s @ newline"

definition dquoted :: "string \<Rightarrow> string" where
  "dquoted s = [CHR 0x22] @ s @ [CHR 0x22]"

definition osTrustCommand :: "string \<Rightarrow> string \<Rightarrow> string" where
  "osTrustCommand goos certPath =
     (if goos = ''windows'' then ''   certutil -addstore -user Root '' @ dquoted certPath
      else if goos = ''darwin'' then
        ''   sudo security add-trusted-cert -d -r trustRoot '' @ [CHR 0x5C] @ newline
        @ ''     -k /Library/Keychains/System.keychain '' @ dquoted certPath
      else ''   sudo cp '' @ dquoted certPath @ '' /usr/local/share/ca-certificates/doppel.crt '' @ [CHR 0x5C] @ newline
        @ ''     && sudo update-ca-certificates'')"

definition osTrustNote :: "string \<Rightarrow> string" where
  "osTrustNote goos =
     (if goos = ''windows'' then
        ''   Note: tools using Windows Schannel (curl, .NET) reject a private'' @ newline
        @ ''   CA during revocation checks. Disable revocation for them,'' @ newline
        @ ''   for example: curl --ssl-no-revoke. OpenSSL-based tools are fine.''
      else [])"

definition InstallGuide :: "string \<Rightarrow> string \<Rightarrow> string \<Rightarrow> string \<Rightarrow> string" where
  "InstallGuide goos certPath fingerprint proxyAddr =
     concat
       ([Fprintln ''Doppel CA generated.'', newline,
         ''  Certificate : '' @ certPath @ newline, ''  SHA-256     : '' @ fingerprint @ newline, newline,
         Fprintln ''Verify this fingerprint matches the certificate before trusting it.'',
         Fprintln ''The CA is unique to this machine. Never share its private key.'', newline,
         Fprintln ''1. Trust the CA in the OS store'', Fprintln (osTrustCommand goos certPath)]
        @ (if osTrustNote goos \<noteq> [] then [Fprintln (osTrustNote goos)] else [])
        @ [newline,
         Fprintln ''2. Trust the CA in language runtimes (they ignore the OS store)'',
         ''   Python (requests) : set REQUESTS_CA_BUNDLE='' @ certPath @ newline,
         ''   Node.js           : set NODE_EXTRA_CA_CERTS='' @ certPath @ newline,
         ''   Go / curl         : set SSL_CERT_FILE='' @ certPath @ newline, newline,
         Fprintln ''3. Point a client at the proxy'',
         ''   HTTP CONNECT : set HTTPS_PROXY=http://'' @ proxyAddr @ newline,
         ''   SOCKS5       : set HTTPS_PROXY=socks5://'' @ proxyAddr @ newline,
         Fprintln ''   The same port serves both protocols.'', newline,
         Fprintln ''To undo, remove the CA from every store above and delete:'',
         ''   '' @ certPath @ newline])"

end
