(* ===== verification/Cli.thy ===== *)
theory Cli
  imports Proxy_Server Launch Profile_Registry Wizard Socks_Client
begin

text \<open>
  The commands of \<open>cmd/doppel/main.go\<close>. A command's flags are what \<open>flag.FlagSet.Parse\<close> found on the
  command line (\<open>None\<close>: the flag was not given); the defaults come from the configuration as in the
  code. The file system, the crypto packages, the profile files and the environment are arguments.
\<close>

section \<open>Surroundings\<close>

record cli_env =
  filepath_Join :: "string \<Rightarrow> string \<Rightarrow> string"
  filepath_Dir :: "string \<Rightarrow> string"
  UserConfigDir :: "go_error + string"
  env_crypto :: crypto
  env_draw :: nat
  env_now :: int
  json_decode :: "string \<Rightarrow> go_error + Profile"
  builtin_dir :: "go_error + dir_entry list"
  user_dir :: "string \<Rightarrow> (go_error + dir_entry list) option"
  url_Parse :: "string \<Rightarrow> go_error + url_view"
  GOOS :: string
  DOPPEL_UPSTREAM_PROXY :: string
  os_Environ :: "string list"

definition flag_value :: "'a option \<Rightarrow> 'a \<Rightarrow> 'a" where
  "flag_value f d = (case f of None \<Rightarrow> d | Some v \<Rightarrow> v)"

definition default_config :: "cli_env \<Rightarrow> go_error + Config" where
  "default_config env = Default (filepath_Join env) (UserConfigDir env)"

definition no_CA :: "Config \<Rightarrow> go_error" where
  "no_CA cfg = Errorf (''no CA found in '' @ DataDir cfg @ ''; run 'doppel init' first'')"

definition load_CA :: "cli_env \<Rightarrow> file_system \<Rightarrow> Config \<Rightarrow> go_error + Authority" where
  "load_CA env fs cfg =
     Authority.Load (env_crypto env) (env_draw env) fs (config_CACertPath (filepath_Join env) cfg) (CAKeyPath (filepath_Join env) cfg)"

text \<open>\<open>loadProfile(cfg, name)\<close> with the user's directory of this configuration.\<close>

definition load_named :: "cli_env \<Rightarrow> Config \<Rightarrow> string \<Rightarrow> go_error + Profile" where
  "load_named env cfg name =
     loadProfile (json_decode env) (builtin_dir env) (user_dir env (ProfilesDir (filepath_Join env) cfg)) name"

section \<open>init\<close>

text \<open>A command's result: its error, what it printed and the file system.\<close>

definition cmdInit ::
  "cli_env \<Rightarrow> string option \<Rightarrow> string option \<Rightarrow> bool option \<Rightarrow> file_system \<Rightarrow> (go_error + string) \<times> file_system" where
  "cmdInit env dataDir addr force fs =
     (case default_config env of
        Inl e \<Rightarrow> (Inl e, fs)
      | Inr cfg0 \<Rightarrow>
          (let cfg = cfg0\<lparr>DataDir := flag_value dataDir (DataDir cfg0)\<rparr>;
               certPath = config_CACertPath (filepath_Join env) cfg; keyPath = CAKeyPath (filepath_Join env) cfg;
               guide = (\<lambda>a. InstallGuide (GOOS env) certPath (Fingerprint (env_crypto env) a) (flag_value addr (Addr cfg0)))
           in if CAExists (filepath_Join env) fs cfg \<and> \<not> flag_value force False then
                (case load_CA env fs cfg of
                   Inl e \<Rightarrow> (Inl e, fs)
                 | Inr a \<Rightarrow> (Inr (Fprintln ''Existing CA found; reusing it. Pass -force to regenerate.'' @ newline
                                  @ Fprintln (guide a)), fs))
              else
                (case Generate (env_crypto env) (env_draw env) (env_now env) of
                   Inl e \<Rightarrow> (Inl e, fs)
                 | Inr a \<Rightarrow>
                     (case Save (env_crypto env) (filepath_Dir env) a certPath keyPath fs of
                        (Some e, fs) \<Rightarrow> (Inl e, fs)
                      | (None, fs) \<Rightarrow> (Inr (Fprintln (guide a)), fs)))))"

section \<open>run and launch\<close>

record run_flags =
  f_addr :: "string option"
  f_profile :: "string option"
  f_data :: "string option"
  f_insecure :: "bool option"
  f_upstream_proxy :: "string option"
  f_keep_headers :: "bool option"
  f_bypass :: "string option"
  f_passthrough :: "string option"
  f_tls_profile :: "string option"

definition flag_config :: "Config \<Rightarrow> run_flags \<Rightarrow> Config" where
  "flag_config cfg fl =
     cfg\<lparr>DataDir := flag_value (f_data fl) (DataDir cfg), Addr := flag_value (f_addr fl) (Addr cfg),
         ConfigProfile := flag_value (f_profile fl) (ConfigProfile cfg)\<rparr>"

text \<open>The part the two commands share word for word: from the check for the CA to the interceptor.\<close>

definition setup_interceptor ::
  "cli_env \<Rightarrow> file_system \<Rightarrow> Config \<Rightarrow> run_flags \<Rightarrow> string \<Rightarrow> go_error + Interceptor" where
  "setup_interceptor env fs cfg fl default_bypass =
     (if \<not> CAExists (filepath_Join env) fs cfg then Inl (no_CA cfg)
      else case load_CA env fs cfg of
          Inl e \<Rightarrow> Inl e
        | Inr auth \<Rightarrow>
            (case load_named env cfg (ConfigProfile cfg) of
               Inl e \<Rightarrow> Inl e
             | Inr loaded \<Rightarrow>
                 (let tlsProfile = flag_value (f_tls_profile fl) []
                  in case (if tlsProfile \<noteq> [] then validateClientHello tlsProfile else None) of
                       Some e \<Rightarrow> Inl e
                     | None \<Rightarrow>
                         (let selected = (if tlsProfile \<noteq> [] then loaded\<lparr>ClientHello := tlsProfile\<rparr> else loaded)
                          in case ParseProxy (url_Parse env) (flag_value (f_upstream_proxy fl) (DOPPEL_UPSTREAM_PROXY env)) of
                               Inl e \<Rightarrow> Inl e
                             | Inr upstreamProxy \<Rightarrow>
                                 Inr
                                   \<lparr>ic_CA = auth,
                                    ic_Profile = selected,
                                    Transport_Dialer =
                                      \<lparr>Timeout = 0, SkipVerify = flag_value (f_insecure fl) False, UpstreamProxy = upstreamProxy,
                                       BypassList = splitBypass (flag_value (f_bypass fl) default_bypass)\<rparr>,
                                    Transport_Profile = selected,
                                    RewriteHeaders = \<not> flag_value (f_keep_headers fl) False,
                                    PassthroughList = splitBypass (flag_value (f_passthrough fl) [])\<rparr>))))"

text \<open>\<open>ListenAndServe\<close> and \<open>cmdRun\<close>: \<open>listen\<close> is \<open>net.Listen\<close>, the listener's address when it succeeds, and \<open>serve\<close> the
  result of \<open>Serve\<close> on that listener.\<close>

definition ListenAndServe :: "(string \<Rightarrow> go_error + string) \<Rightarrow> (string \<Rightarrow> go_error option) \<Rightarrow> string \<Rightarrow> go_error option" where
  "ListenAndServe listen serve address =
     (case listen address of Inl e \<Rightarrow> Some (Wrapf (''listen on '' @ address) e) | Inr ln \<Rightarrow> serve ln)"

definition cmdRun ::
  "cli_env \<Rightarrow> file_system \<Rightarrow> (string \<Rightarrow> go_error + string) \<Rightarrow> (Interceptor \<Rightarrow> string \<Rightarrow> go_error option) \<Rightarrow>
   run_flags \<Rightarrow> go_error option" where
  "cmdRun env fs listen serve fl =
     (case default_config env of
        Inl e \<Rightarrow> Some e
      | Inr cfg0 \<Rightarrow>
          (let cfg = flag_config cfg0 fl
           in case setup_interceptor env fs cfg fl [] of
                Inl e \<Rightarrow> Some e
              | Inr ic \<Rightarrow> ListenAndServe listen (serve ic) (Addr cfg)))"

record launch_flags =
  l_env :: "bool option"
  l_electron :: "bool option"
  l_all_schemes :: "bool option"

text \<open>\<open>net.Listen\<close> gives the listener's address. \<open>run_child\<close> is the child's exit; \<open>serve_result\<close> is the server's result when
  it comes within the five seconds.\<close>

definition cmdLaunch ::
  "cli_env \<Rightarrow> file_system \<Rightarrow> (string \<Rightarrow> go_error + string) \<Rightarrow> (Cmd \<Rightarrow> go_error option) \<Rightarrow>
   (Interceptor \<Rightarrow> go_error option option) \<Rightarrow> run_flags \<Rightarrow> launch_flags \<Rightarrow> string list \<Rightarrow> go_error option" where
  "cmdLaunch env fs listen run_child serve_result fl lf argv =
     (case default_config env of
        Inl e \<Rightarrow> Some e
      | Inr cfg0 \<Rightarrow>
          if argv = [] then Some (Errorf ''usage: doppel launch [flags] -- <command> [args...]'')
          else let cfg = flag_config cfg0 fl; bypass = flag_value (f_bypass fl) ''<local>''
            in case setup_interceptor env fs cfg fl ''<local>'' of
                 Inl e \<Rightarrow> Some e
               | Inr ic \<Rightarrow>
                   (case listen (Addr cfg) of
                      Inl e \<Rightarrow> Some (Wrapf (''listen on '' @ Addr cfg) e)
                    | Inr proxyAddr \<Rightarrow>
                        (case Command (os_Environ env)
                                \<lparr>ProxyAddr = proxyAddr, CACertPath = config_CACertPath (filepath_Join env) cfg,
                                 IncludeEnv = flag_value (l_env lf) True, IncludeChromium = flag_value (l_electron lf) False,
                                 ProxyAllSchemes = flag_value (l_all_schemes lf) False, LaunchBypass = bypass\<rparr> argv of
                           Inl e \<Rightarrow> Some e
                         | Inr cmd \<Rightarrow>
                             (let runErr = run_child cmd
                              in case serve_result ic of
                                   Some (Some e) \<Rightarrow> if runErr = None then Some e else runErr
                                 | _ \<Rightarrow> runErr))))"

section \<open>profiles, ca and verify\<close>

text \<open>\<open>%-24s\<close> and \<open>%-7s\<close>.\<close>

definition pad_right :: "nat \<Rightarrow> string \<Rightarrow> string" where
  "pad_right n s = s @ replicate (n - length s) CHR '' ''"

definition profile_line :: "registry \<Rightarrow> (string \<times> string) list \<Rightarrow> string \<Rightarrow> string" where
  "profile_line profiles source name =
     (case reg_lookup profiles name of
        None \<Rightarrow> []
      | Some p \<Rightarrow>
          (let description = Description p;
               description = (if Aliases p \<noteq> [] then description @ '' (aliases: '' @ Join (Aliases p) '', '' @ '')'' else description);
               origin = (case map_of source name of Some o' \<Rightarrow> o' | None \<Rightarrow> [])
           in pad_right 24 name @ '' ['' @ pad_right 7 origin @ ''] '' @ description @ newline))"

definition cmdProfiles :: "cli_env \<Rightarrow> string option \<Rightarrow> go_error + string list" where
  "cmdProfiles env dataDir =
     (case default_config env of
        Inl e \<Rightarrow> Inl e
      | Inr cfg0 \<Rightarrow>
          (let cfg = cfg0\<lparr>DataDir := flag_value dataDir (DataDir cfg0)\<rparr>
           in case allProfiles (json_decode env) (builtin_dir env) (user_dir env (ProfilesDir (filepath_Join env) cfg)) of
                Inl e \<Rightarrow> Inl e
              | Inr (profiles, source) \<Rightarrow>
                  (let names = sort_Strings (map fst (filter (\<lambda>(name, p). \<not> name \<noteq> Name p) profiles))
                   in Inr (map (profile_line profiles source) names))))"

text \<open>\<open>cmdCA\<close>: an error after the three lines keeps what was printed.\<close>

definition cmdCA ::
  "cli_env \<Rightarrow> string option \<Rightarrow> string option \<Rightarrow> file_system \<Rightarrow> go_error option \<times> string \<times> file_system" where
  "cmdCA env dataDir export fs =
     (case default_config env of
        Inl e \<Rightarrow> (Some e, [], fs)
      | Inr cfg0 \<Rightarrow>
          (let cfg = cfg0\<lparr>DataDir := flag_value dataDir (DataDir cfg0)\<rparr>
           in if \<not> CAExists (filepath_Join env) fs cfg then (Some (no_CA cfg), [], fs)
              else case load_CA env fs cfg of
                  Inl e \<Rightarrow> (Some e, [], fs)
                | Inr auth \<Rightarrow>
                    (let shown = ''certificate : '' @ config_CACertPath (filepath_Join env) cfg @ newline
                           @ ''private key : '' @ CAKeyPath (filepath_Join env) cfg @ newline
                           @ ''SHA-256     : '' @ Fingerprint (env_crypto env) auth @ newline;
                         path = flag_value export []
                     in if path = [] then (None, shown, fs)
                        else case os_WriteFile path (CertificatePEM (env_crypto env) auth) 420 fs of
                            (Some e, fs) \<Rightarrow> (Some (Wrapf ''export CA certificate'' e), shown, fs)
                          | (None, fs) \<Rightarrow> (None, shown @ ''exported    : '' @ path @ newline, fs))))"

text \<open>\<open>cmdVerify\<close>: one request through a transport of its own; \<open>read_body\<close> is what reading at most a megabyte of the
  response's body gives.\<close>

definition verify_request :: "url_parser \<Rightarrow> Profile \<Rightarrow> string \<Rightarrow> go_error + Request" where
  "verify_request parse_url selected url =
     (case http_NewRequest parse_url ''GET'' url None of
        Inl e \<Rightarrow> Inl (Wrapf ''build request'' e)
      | Inr req \<Rightarrow> Inr (req\<lparr>ReqHeader := Apply selected (ReqHeader req)\<rparr>))"

definition verify_report :: "Profile \<Rightarrow> string \<Rightarrow> Response \<Rightarrow> bytes \<Rightarrow> string" where
  "verify_report selected url resp body =
     ''profile : '' @ Name selected @ newline @ ''url     : '' @ url @ newline
     @ ''status  : '' @ Status resp @ newline @ ''protocol: '' @ Proto resp @ newline
     @ Fprintln ''---'' @ Fprintln (string_of body)"

definition cmdVerify ::
  "cli_env \<Rightarrow> url_parser \<Rightarrow> rt_env \<Rightarrow> framer \<Rightarrow> go_error + bytes \<Rightarrow> string option \<Rightarrow> string option \<Rightarrow> string option \<Rightarrow>
   string option \<Rightarrow> go_error + string" where
  "cmdVerify env parse_url rt wr read_body profile url dataDir upstream_proxy =
     (case default_config env of
        Inl e \<Rightarrow> Inl e
      | Inr cfg0 \<Rightarrow>
          (let cfg = cfg0\<lparr>DataDir := flag_value dataDir (DataDir cfg0)\<rparr>; url = flag_value url ''https://get.ja3.zone/''
           in case load_named env cfg (flag_value profile (ConfigProfile cfg0)) of
                Inl e \<Rightarrow> Inl e
              | Inr selected \<Rightarrow>
                  (case ParseProxy (url_Parse env) (flag_value upstream_proxy (DOPPEL_UPSTREAM_PROXY env)) of
                     Inl e \<Rightarrow> Inl e
                   | Inr upstreamProxy \<Rightarrow>
                       (let d = \<lparr>Timeout = 0, SkipVerify = False, UpstreamProxy = upstreamProxy, BypassList = []\<rparr>
                        in case verify_request parse_url selected url of
                             Inl e \<Rightarrow> Inl e
                           | Inr req \<Rightarrow>
                               (case RoundTrip rt wr d selected req \<lparr>pool = [], conns = []\<rparr> of
                                  (Inl e, _, _) \<Rightarrow> Inl e
                                | (Inr (resp, _), _, _) \<Rightarrow>
                                    (case read_body of
                                       Inl e \<Rightarrow> Inl (Wrapf ''read response'' e)
                                     | Inr body \<Rightarrow> Inr (verify_report selected url resp (take (2 ^ 20) body))))))))"

section \<open>main\<close>

text \<open>\<open>main\<close>: which command runs, and the exit status. \<open>commands\<close> gives each command's error.\<close>

datatype command = Cmd_init | Cmd_run | Cmd_launch | Cmd_profiles | Cmd_ca | Cmd_verify | Cmd_version | Cmd_help

definition command_of :: "string \<Rightarrow> command option" where
  "command_of cmd =
     (if cmd = ''init'' then Some Cmd_init
      else if cmd = ''run'' then Some Cmd_run
      else if cmd = ''launch'' then Some Cmd_launch
      else if cmd = ''profiles'' then Some Cmd_profiles
      else if cmd = ''ca'' then Some Cmd_ca
      else if cmd = ''verify'' then Some Cmd_verify
      else if cmd = ''version'' \<or> cmd = ''-v'' \<or> cmd = ''--version'' then Some Cmd_version
      else if cmd = ''help'' \<or> cmd = ''-h'' \<or> cmd = ''--help'' then Some Cmd_help
      else None)"

definition main :: "(command \<Rightarrow> string list \<Rightarrow> go_error option) \<Rightarrow> string list \<Rightarrow> nat" where
  "main commands args =
     (if length args < 2 then 2
      else case command_of (args ! 1) of
          None \<Rightarrow> 2
        | Some Cmd_version \<Rightarrow> 0
        | Some Cmd_help \<Rightarrow> 0
        | Some c \<Rightarrow> (case commands c (drop 2 args) of Some e \<Rightarrow> 1 | None \<Rightarrow> 0))"

section \<open>The CA across commands\<close>

lemma Save_makes_CA:
  assumes "Save cr Dir a certPath keyPath fs = (None, fs')"
  shows "map_of (files fs') certPath \<noteq> None \<and> map_of (files fs') keyPath \<noteq> None"
proof -
  from assms obtain der fs1 where
    w: "os_WriteFile certPath (pem_Encode cr ''CERTIFICATE'' (caDER a)) 420 fs = (None, fs1)"
      "os_WriteFile keyPath (pem_Encode cr ''PRIVATE KEY'' der) 384 fs1 = (None, fs')"
    by (rule Save_NoneD)
  show ?thesis using os_ReadFile_WriteFile(2) [OF w(1)] os_ReadFile_WriteFile(2) [OF w(2)] by auto
qed

lemma Load_redrawn:
  assumes "Authority.Load cr draw fs c k = Inr a" "GenerateKey cr d = Inr lk"
  shows "Authority.Load cr d fs c k = Inr (a\<lparr>leafKey := lk\<rparr>)"
  using assms by (auto simp: Authority.Load_def split: sum.splits option.splits prod.splits if_splits)

lemma Fingerprint_leafKey [simp]: "Fingerprint cr (a\<lparr>leafKey := lk\<rparr>) = Fingerprint cr a"
  by (simp add: Fingerprint_def)

text \<open>C22: After a successful \<open>init\<close>, \<open>run\<close>, \<open>launch\<close> and \<open>ca\<close> on the same data directory find the CA and load it,
  at any later time, and it is the one whose fingerprint the guide showed; without \<open>-force\<close>, an existing
  CA is left as it was.\<close>

theorem init_then_load:
  assumes "cmdInit env dataDir addr force fs = (Inr printed, fs')" "default_config env = Inr cfg0"
    and "cfg = cfg0\<lparr>DataDir := flag_value dataDir (DataDir cfg0)\<rparr>"
    and "config_CACertPath (filepath_Join env) cfg \<noteq> CAKeyPath (filepath_Join env) cfg"
    and "encodings_ok (env_crypto env)" "GenerateKey (env_crypto env) d = Inr lk"
  shows "CAExists (filepath_Join env) fs' cfg
     \<and> (\<exists>a heading. load_CA (env\<lparr>env_draw := d\<rparr>) fs' cfg = Inr a
          \<and> printed = heading @ Fprintln (InstallGuide (GOOS env) (config_CACertPath (filepath_Join env) cfg)
                                            (Fingerprint (env_crypto env) a) (flag_value addr (Addr cfg0))))
     \<and> (CAExists (filepath_Join env) fs cfg \<and> force \<noteq> Some True \<longrightarrow> fs' = fs)"
proof (cases "CAExists (filepath_Join env) fs cfg \<and> \<not> flag_value force False")
  case True
  with assms(1-3) obtain a where a: "load_CA env fs cfg = Inr a" "fs' = fs"
    "printed = (Fprintln ''Existing CA found; reusing it. Pass -force to regenerate.'' @ newline)
       @ Fprintln (InstallGuide (GOOS env) (config_CACertPath (filepath_Join env) cfg)
                     (Fingerprint (env_crypto env) a) (flag_value addr (Addr cfg0)))"
    by (auto simp: cmdInit_def Let_def split: sum.splits)
  from a(1) have "load_CA (env\<lparr>env_draw := d\<rparr>) fs' cfg = Inr (a\<lparr>leafKey := lk\<rparr>)"
    using Load_redrawn [OF _ assms(6)] a(2) by (simp add: load_CA_def)
  with a True show ?thesis by (metis Fingerprint_leafKey)
next
  case False
  let ?c = "config_CACertPath (filepath_Join env) cfg" and ?k = "CAKeyPath (filepath_Join env) cfg"
  from False assms(1-3) obtain a where a: "Generate (env_crypto env) (env_draw env) (env_now env) = Inr a"
    "Save (env_crypto env) (filepath_Dir env) a ?c ?k fs = (None, fs')"
    "printed = [] @ Fprintln (InstallGuide (GOOS env) ?c (Fingerprint (env_crypto env) a) (flag_value addr (Addr cfg0)))"
    by (auto simp: cmdInit_def Let_def split: sum.splits prod.splits option.splits if_splits)
  have ok: "authority_ok (env_crypto env) a" using Generate_ok [OF a(1)] by blast
  from save_load [OF a(2) assms(4,5) ok assms(6)] have
    l: "load_CA (env\<lparr>env_draw := d\<rparr>) fs' cfg = Inr \<lparr>caCert = caCert a, caKey = caKey a, caDER = caDER a, leafKey = lk, cache = []\<rparr>"
    by (simp add: load_CA_def)
  have f: "Fingerprint (env_crypto env) \<lparr>caCert = caCert a, caKey = caKey a, caDER = caDER a, leafKey = lk, cache = []\<rparr>
      = Fingerprint (env_crypto env) a" by (simp add: Fingerprint_def)
  have "CAExists (filepath_Join env) fs' cfg" using Save_makes_CA [OF a(2)] by (simp add: CAExists_def)
  moreover have "\<not> (CAExists (filepath_Join env) fs cfg \<and> force \<noteq> Some True)"
    using False by (cases force) (auto simp: flag_value_def)
  ultimately show ?thesis using l f a(3) by metis
qed

lemma load_profile_valid:
  assumes "loadProfile decode builtin user name = Inr p"
  shows "Validate p = None"
proof (cases user)
  case (Some u)
  with assms load_profile show ?thesis by blast
next
  case None
  with assms obtain reg where "Builtin decode builtin = Inr reg" "reg_lookup reg name = Some p"
    by (auto simp: loadProfile_def allProfiles_def split: sum.splits option.splits)
  then show ?thesis using registry_okD(1) Builtin_registry_ok by blast
qed

text \<open>C21: What \<open>run\<close> and \<open>launch\<close> start has one identity: the interceptor and the transport share the selected
  profile, which is a valid profile of the registry with at most its ClientHello replaced, and then by
  one the dialer knows; certificate verification is off only by the flag, and egress goes only through a
  SOCKS5 proxy or directly.\<close>

theorem setup_interceptor_identity:
  assumes "setup_interceptor env fs cfg fl default_bypass = Inr ic"
  shows "Transport_Profile ic = ic_Profile ic
     \<and> (\<exists>loaded. load_named env cfg (ConfigProfile cfg) = Inr loaded \<and> Validate loaded = None
          \<and> ic_Profile ic = loaded\<lparr>ClientHello := ClientHello (ic_Profile ic)\<rparr>
          \<and> (ClientHello (ic_Profile ic) = ClientHello loaded \<or> (\<exists>i. resolveClientHello (ClientHello (ic_Profile ic)) = Inr i)))
     \<and> (SkipVerify (Transport_Dialer ic) \<longrightarrow> f_insecure fl = Some True)
     \<and> (\<forall>px. UpstreamProxy (Transport_Dialer ic) = Some px \<longrightarrow> Scheme px = ''socks5'')
     \<and> CAExists (filepath_Join env) fs cfg \<and> load_CA env fs cfg = Inr (ic_CA ic)"
proof -
  let ?tls = "flag_value (f_tls_profile fl) []"
  from assms obtain auth loaded px where s: "CAExists (filepath_Join env) fs cfg" "load_CA env fs cfg = Inr auth"
    "load_named env cfg (ConfigProfile cfg) = Inr loaded" "?tls \<noteq> [] \<longrightarrow> validateClientHello ?tls = None"
    "ParseProxy (url_Parse env) (flag_value (f_upstream_proxy fl) (DOPPEL_UPSTREAM_PROXY env)) = Inr px"
    "ic = \<lparr>ic_CA = auth, ic_Profile = (if ?tls \<noteq> [] then loaded\<lparr>ClientHello := ?tls\<rparr> else loaded),
           Transport_Dialer = \<lparr>Timeout = 0, SkipVerify = flag_value (f_insecure fl) False, UpstreamProxy = px,
              BypassList = splitBypass (flag_value (f_bypass fl) default_bypass)\<rparr>,
           Transport_Profile = (if ?tls \<noteq> [] then loaded\<lparr>ClientHello := ?tls\<rparr> else loaded),
           RewriteHeaders = \<not> flag_value (f_keep_headers fl) False,
           PassthroughList = splitBypass (flag_value (f_passthrough fl) [])\<rparr>"
    by (auto simp: setup_interceptor_def Let_def split: if_splits sum.splits option.splits)
  have v: "Validate loaded = None" using load_profile_valid s(3) by (simp add: load_named_def)
  have sc: "Scheme q = ''socks5''" if "px = Some q" for q
    using s(5) that by (auto simp: ParseProxy_def parseProviderProxyURL_def Let_def
        split: if_splits sum.splits option.splits prod.splits list.splits)
  have r: "?tls \<noteq> [] \<Longrightarrow> \<exists>i. resolveClientHello ?tls = Inr i" using s(4) validate_resolves by blast
  show ?thesis
    using s v sc r by (cases "f_insecure fl") (auto simp: flag_value_def)
qed

section \<open>The listed profiles\<close>

lemma fold_update_distinct: "distinct (map fst bs) \<Longrightarrow> distinct (map fst (fold (\<lambda>(n, p) out. AList.update n (f n p) out) us bs))"
  by (induction us arbitrary: bs) (auto intro: distinct_update)

lemma builtin_entries_distinct:
  "distinct (map fst out) \<Longrightarrow> builtin_entries decode es out = Inr out' \<Longrightarrow> distinct (map fst out')"
  by (induction es arbitrary: out) (auto split: if_splits sum.splits dest: registerProfile_distinct)

lemma allProfiles_distinct: "allProfiles decode builtin user = Inr (profiles, source) \<Longrightarrow> distinct (map fst profiles)"
  by (auto simp: allProfiles_def Builtin_def merge_user_def split: sum.splits option.splits
      intro!: fold_update_distinct intro: builtin_entries_distinct [of "[]"])

text \<open>C32: every profile that \<open>profiles\<close> lists can be run: its line shows a name under which \<open>run\<close>, \<open>launch\<close> and
  \<open>verify\<close>, on the same data directory, load the valid profile of exactly that name; and the list is the names
  in ascending order, without repetition.\<close>

theorem cmdProfiles_selectable:
  assumes "cmdProfiles env dataDir = Inr out" "default_config env = Inr cfg0"
    and "cfg = cfg0\<lparr>DataDir := flag_value dataDir (DataDir cfg0)\<rparr>"
  shows "\<exists>names profiles source. out = map (profile_line profiles source) names \<and> distinct names \<and> sorted names
     \<and> (\<forall>name. name \<in> set names \<longleftrightarrow> (\<exists>p. load_named env cfg name = Inr p \<and> Name p = name))
     \<and> (\<forall>name p. load_named env cfg name = Inr p \<longrightarrow> Validate p = None \<and> reg_lookup profiles name = Some p)"
proof -
  from assms obtain profiles source where
    a: "allProfiles (json_decode env) (builtin_dir env) (user_dir env (ProfilesDir (filepath_Join env) cfg)) = Inr (profiles, source)"
      "out = map (profile_line profiles source) (sort_Strings (map fst (filter (\<lambda>(name, p). \<not> name \<noteq> Name p) profiles)))"
    by (auto simp: cmdProfiles_def Let_def split: sum.splits)
  let ?names = "map fst (filter (\<lambda>(name, p). \<not> name \<noteq> Name p) profiles)"
  have d: "distinct (map fst profiles)" using allProfiles_distinct [OF a(1)] .
  have l: "load_named env cfg name = Inr p \<longleftrightarrow> reg_lookup profiles name = Some p" for name p
    using a(1) by (auto simp: load_named_def loadProfile_def split: option.splits)
  have v: "load_named env cfg name = Inr p \<Longrightarrow> Validate p = None" for name p
    using load_profile_valid by (simp add: load_named_def)
  have m: "name \<in> set ?names \<longleftrightarrow> (\<exists>p. load_named env cfg name = Inr p \<and> Name p = name)" for name
    using d by (auto simp: l reg_lookup_def image_iff intro: map_of_is_SomeI dest: map_of_SomeD)
  have "distinct ?names" using d by (simp add: distinct_map_filter)
  then show ?thesis
    using a(2) m v l by (intro exI [of _ "sort_Strings ?names"] exI [of _ profiles] exI [of _ source])
      (simp add: sorted_sort_Strings mset_eq_imp_distinct_iff [OF mset_sort_Strings])
qed

section \<open>Instances\<close>

definition example_entry :: dir_entry where
  "example_entry = \<lparr>EntryName = ''p.json'', IsDir = False, Contents = Inr []\<rparr>"

definition example_env :: cli_env where
  "example_env = \<lparr>filepath_Join = (\<lambda>d f. d @ ''/'' @ f), filepath_Dir = (\<lambda>p. p), UserConfigDir = Inr ''/home'',
     env_crypto = example_crypto, env_draw = 0, env_now = 0, json_decode = (\<lambda>s. Inr run_profile),
     builtin_dir = Inr [example_entry], user_dir = (\<lambda>d. None), url_Parse = (\<lambda>s. Inl EOF), GOOS = ''linux'',
     DOPPEL_UPSTREAM_PROXY = [], os_Environ = []\<rparr>"

definition example_config :: Config where
  "example_config = \<lparr>DataDir = ''/d'', Addr = DefaultAddr, ConfigProfile = ''p''\<rparr>"

definition no_files :: file_system where
  "no_files = \<lparr>files = [], write_error = (\<lambda>p. None), mkdir_error = (\<lambda>p. None)\<rparr>"

definition ca_files :: file_system where
  "ca_files = no_files\<lparr>files := [(''/d/ca.pem'', [1, 4, 2], 420), (''/d/ca.key'', [0, 7], 384)]\<rparr>"

definition example_flags :: run_flags where
  "example_flags = \<lparr>f_addr = None, f_profile = Some ''p'', f_data = Some ''/d'', f_insecure = None, f_upstream_proxy = None,
     f_keep_headers = None, f_bypass = None, f_passthrough = None, f_tls_profile = Some ''chrome''\<rparr>"

lemma example_encodings_ok: "encodings_ok example_crypto"
  by (auto simp: encodings_ok_def example_crypto_def split: if_splits)

theorem init_then_load_witness:
  "\<exists>printed fs' a. cmdInit example_env (Some ''/d'') None None no_files = (Inr printed, fs')
     \<and> load_CA (example_env\<lparr>env_draw := 5\<rparr>) fs' (example_config\<lparr>ConfigProfile := DefaultProfile\<rparr>) = Inr a"
proof -
  let ?cfg = "example_config\<lparr>ConfigProfile := DefaultProfile\<rparr>"
  obtain printed fs' where r: "cmdInit example_env (Some ''/d'') None None no_files = (Inr printed, fs')"
    by (simp add: cmdInit_def default_config_def Default_def example_env_def flag_value_def CAExists_def no_files_def
        Generate_def randSerial_def Save_def os_WriteFile_def example_crypto_def Let_def)
  have "default_config example_env = Inr \<lparr>DataDir = ''/home/doppel'', Addr = DefaultAddr, ConfigProfile = DefaultProfile\<rparr>"
    by (simp add: default_config_def Default_def example_env_def)
  note i = init_then_load [OF r this, of ?cfg 5 12]
  have "env_crypto example_env = example_crypto" "filepath_Join example_env = (\<lambda>d f. d @ ''/'' @ f)"
    by (simp_all add: example_env_def)
  then have "\<exists>a. load_CA (example_env\<lparr>env_draw := 5\<rparr>) fs' ?cfg = Inr a"
    using i example_encodings_ok
    by (auto simp: example_config_def flag_value_def config_CACertPath_def CAKeyPath_def example_crypto_def)
  with r show ?thesis by blast
qed

theorem cmdProfiles_selectable_witness:
  "\<exists>names profiles source. cmdProfiles example_env (Some ''/d'') = Inr (map (profile_line profiles source) names)
     \<and> sorted names \<and> ''p'' \<in> set names"
proof -
  let ?cfg = "example_config\<lparr>ConfigProfile := DefaultProfile\<rparr>"
  have c: "default_config example_env = Inr \<lparr>DataDir = ''/home/doppel'', Addr = DefaultAddr, ConfigProfile = DefaultProfile\<rparr>"
    by (simp add: default_config_def Default_def example_env_def)
  have g: "?cfg = \<lparr>DataDir = ''/home/doppel'', Addr = DefaultAddr, ConfigProfile = DefaultProfile\<rparr>
      \<lparr>DataDir := flag_value (Some ''/d'') (DataDir \<lparr>DataDir = ''/home/doppel'', Addr = DefaultAddr, ConfigProfile = DefaultProfile\<rparr>)\<rparr>"
    by (simp add: example_config_def flag_value_def)
  have "isl (cmdProfiles example_env (Some ''/d'')) = False" by code_simp
  then obtain out where r: "cmdProfiles example_env (Some ''/d'') = Inr out"
    by (cases "cmdProfiles example_env (Some ''/d'')") auto
  have p: "load_named example_env ?cfg ''p'' = Inr run_profile" "Name run_profile = ''p''" by code_simp+
  from cmdProfiles_selectable [OF r c g] p r show ?thesis by blast
qed

theorem setup_interceptor_identity_witness:
  "\<exists>ic. setup_interceptor example_env ca_files example_config example_flags [] = Inr ic
     \<and> Transport_Profile ic = ic_Profile ic \<and> \<not> SkipVerify (Transport_Dialer ic)"
proof -
  have c: "CAExists (filepath_Join example_env) ca_files example_config"
    by (simp add: CAExists_def config_CACertPath_def CAKeyPath_def example_env_def ca_files_def example_config_def)
  have l: "\<exists>a. load_CA example_env ca_files example_config = Inr a"
    by (simp add: load_CA_def Authority.Load_def os_ReadFile_def config_CACertPath_def CAKeyPath_def example_env_def
        ca_files_def example_config_def example_crypto_def)
  have p: "load_named example_env example_config ''p'' = Inr run_profile" by code_simp
  have q: "ParseProxy (url_Parse example_env) [] = Inr None" by code_simp
  have v: "validateClientHello ''chrome'' = None" by code_simp
  obtain ic where s: "setup_interceptor example_env ca_files example_config example_flags [] = Inr ic"
    using c l p q v by (auto simp: setup_interceptor_def example_flags_def flag_value_def example_config_def Let_def
        example_env_def [THEN arg_cong [where f = DOPPEL_UPSTREAM_PROXY]])
  from setup_interceptor_identity [OF s] s show ?thesis by (auto simp: example_flags_def)
qed

end
