(* ===== verification/Profile_Json.thy ===== *)
theory Profile_Json
  imports H2_Headers
begin

text \<open>
  \<open>HTTP2Profile.UnmarshalJSON\<close> of \<open>internal/profile/profile.go\<close>: the ordered array of HTTP/2 settings and the
  object form of older files. \<open>json.Unmarshal\<close> is an argument for each type it decodes into; the
  legacy object is a Go map, an association list in one of the orders in which \<open>range\<close> may visit it.
\<close>

section \<open>The code\<close>

record rawHTTP2Profile =
  RawSettings :: string
  RawConnectionWindowUpdate :: "32 word"
  RawPseudoHeaderOrder :: "string list"

definition legacy_order :: "string list" where
  "legacy_order = [''HEADER_TABLE_SIZE'', ''ENABLE_PUSH'', ''MAX_CONCURRENT_STREAMS'', ''INITIAL_WINDOW_SIZE'',
     ''MAX_FRAME_SIZE'', ''MAX_HEADER_LIST_SIZE'']"

abbreviation setting :: "string \<times> 32 word \<Rightarrow> HTTP2Setting" where
  "setting nv \<equiv> \<lparr>SettingName = fst nv, SettingValue = snd nv\<rparr>"

fun legacy_known :: "string list \<Rightarrow> (string \<times> 32 word) list \<Rightarrow> HTTP2Setting list \<Rightarrow> HTTP2Setting list \<times> (string \<times> 32 word) list" where
  "legacy_known [] legacy out = (out, legacy)"
| "legacy_known (name # names) legacy out =
     (case map_of legacy name of
        Some v \<Rightarrow> legacy_known names (AList.delete name legacy) (out @ [setting (name, v)])
      | None \<Rightarrow> legacy_known names legacy out)"

definition legacy_settings :: "(string \<times> 32 word) list \<Rightarrow> HTTP2Setting list \<Rightarrow> HTTP2Setting list" where
  "legacy_settings legacy out = (case legacy_known legacy_order legacy out of (out, rest) \<Rightarrow> out @ map setting rest)"

definition UnmarshalJSON ::
  "(string \<Rightarrow> go_error + rawHTTP2Profile) \<Rightarrow> (string \<Rightarrow> go_error + HTTP2Setting list) \<Rightarrow>
   (string \<Rightarrow> go_error + (string \<times> 32 word) list) \<Rightarrow> string \<Rightarrow> HTTP2Profile \<Rightarrow> go_error + HTTP2Profile" where
  "UnmarshalJSON decode_raw decode_array decode_object data h =
     (case decode_raw data of
        Inl e \<Rightarrow> Inl e
      | Inr raw \<Rightarrow>
          (let h = h\<lparr>ConnectionWindowUpdate := RawConnectionWindowUpdate raw, PseudoHeaderOrder := RawPseudoHeaderOrder raw\<rparr>
           in if RawSettings raw = [] \<or> RawSettings raw = ''null'' then Inr h
              else if HasPrefix (TrimSpace (RawSettings raw)) ''['' then
                (case decode_array (RawSettings raw) of Inl e \<Rightarrow> Inl e | Inr s \<Rightarrow> Inr (h\<lparr>Settings := s\<rparr>))
              else
                (case decode_object (RawSettings raw) of
                   Inl e \<Rightarrow> Inl e
                 | Inr legacy \<Rightarrow> Inr (h\<lparr>Settings := legacy_settings legacy (Settings h)\<rparr>))))"

section \<open>The order of legacy settings\<close>

definition known_settings :: "string list \<Rightarrow> (string \<rightharpoonup> 32 word) \<Rightarrow> HTTP2Setting list" where
  "known_settings names m = map (\<lambda>n. setting (n, the (m n))) (filter (\<lambda>n. m n \<noteq> None) names)"

lemma known_settings_cong: "(\<And>n. n \<in> set names \<Longrightarrow> m n = m' n) \<Longrightarrow> known_settings names m = known_settings names m'"
  by (induction names) (simp_all add: known_settings_def)

lemma legacy_known_eq:
  "distinct names \<Longrightarrow>
   legacy_known names legacy out =
     (out @ known_settings names (map_of legacy), filter (\<lambda>(n, v). n \<notin> set names) legacy)"
proof (induction names arbitrary: legacy out)
  case (Cons n names)
  have k: "known_settings names (map_of (AList.delete n legacy)) = known_settings names (map_of legacy)"
    using Cons.prems by (intro known_settings_cong) (auto simp: delete_conv)
  have f: "filter (\<lambda>(m, v). m \<notin> set names) (AList.delete n legacy) = filter (\<lambda>(m, v). m \<notin> set (n # names)) legacy"
    by (auto simp: AList.delete_eq intro: filter_cong)
  have g: "filter (\<lambda>(m, v). m \<notin> set names) legacy = filter (\<lambda>(m, v). m \<notin> set (n # names)) legacy" if "map_of legacy n = None"
    using that by (intro filter_cong) (auto simp: map_of_eq_None_iff image_iff)
  show ?case
    using Cons.IH Cons.prems k f g by (cases "map_of legacy n") (auto simp: known_settings_def)
qed (simp add: known_settings_def)

lemma distinct_legacy_order: "distinct legacy_order"
  by (simp add: legacy_order_def)

lemma legacy_settings_eq:
  "legacy_settings legacy out =
     out @ known_settings legacy_order (map_of legacy) @ map setting (filter (\<lambda>(n, v). n \<notin> set legacy_order) legacy)"
  by (simp add: legacy_settings_def legacy_known_eq distinct_legacy_order)

lemma set_known_settings:
  "distinct (map fst legacy) \<Longrightarrow>
   set (known_settings names (map_of legacy)) = setting ` {(n, v) \<in> set legacy. n \<in> set names}"
  by (auto simp: known_settings_def image_iff dest: map_of_SomeD)

text \<open>C33: the object form of older profile files gives every setting once with its value, in the fixed order as
  far as their names are the standard ones, and these are sent first; so a file that uses only standard
  names gives the same SETTINGS whatever order the map is visited in.\<close>

theorem legacy_settings_deterministic:
  assumes "distinct (map fst legacy)"
  shows "set (legacy_settings legacy []) = setting ` set legacy \<and> distinct (map SettingName (legacy_settings legacy []))
     \<and> (\<exists>rest. map SettingName (legacy_settings legacy []) = filter (\<lambda>n. map_of legacy n \<noteq> None) legacy_order @ rest
          \<and> set rest \<inter> set legacy_order = {})
     \<and> (\<forall>legacy'. set legacy' = set legacy \<and> distinct (map fst legacy') \<and> fst ` set legacy \<subseteq> set legacy_order \<longrightarrow>
          legacy_settings legacy' [] = legacy_settings legacy [])"
proof -
  let ?rest = "filter (\<lambda>(n, v). n \<notin> set legacy_order) legacy"
  have n: "map SettingName (legacy_settings legacy []) = filter (\<lambda>n. map_of legacy n \<noteq> None) legacy_order @ map fst ?rest"
    by (simp add: legacy_settings_eq known_settings_def comp_def)
  have d: "distinct (map fst ?rest)" using assms by (simp add: distinct_map_filter)
  have r: "set (map fst ?rest) \<inter> set legacy_order = {}" by auto
  have "set (legacy_settings legacy []) = setting ` set legacy"
    using set_known_settings [OF assms] by (auto simp: legacy_settings_eq)
  moreover have "distinct (map SettingName (legacy_settings legacy []))"
    unfolding n using d r distinct_legacy_order by auto
  moreover have "legacy_settings legacy' [] = legacy_settings legacy []"
    if l: "set legacy' = set legacy" "distinct (map fst legacy')" "fst ` set legacy \<subseteq> set legacy_order" for legacy'
  proof -
    have "map_of legacy' = map_of legacy"
      using l(1,2) assms by (metis map_of_inject_set)
    moreover have "filter (\<lambda>(n, v). n \<notin> set legacy_order) l = []" if "set l = set legacy" for l
      using \<open>fst ` set legacy \<subseteq> set legacy_order\<close> that by (auto simp: filter_empty_conv)
    ultimately show ?thesis using l(1) by (simp add: legacy_settings_eq)
  qed
  ultimately show ?thesis using n r by blast
qed

theorem legacy_settings_deterministic_witness:
  "legacy_settings [(''MAX_FRAME_SIZE'', 16384), (''ENABLE_PUSH'', 0)] []
     = legacy_settings [(''ENABLE_PUSH'', 0), (''MAX_FRAME_SIZE'', 16384)] []"
proof -
  let ?l = "[(''ENABLE_PUSH'', 0), (''MAX_FRAME_SIZE'', 16384)] :: (string \<times> 32 word) list"
  have "distinct (map fst ?l)" "distinct (map fst (rev ?l))" "set (rev ?l) = set ?l" "fst ` set ?l \<subseteq> set legacy_order"
    by (simp_all add: legacy_order_def insert_commute)
  with legacy_settings_deterministic [of ?l] have "legacy_settings (rev ?l) [] = legacy_settings ?l []" by blast
  then show ?thesis by simp
qed

text \<open>A name the SETTINGS accept in another spelling has no place in the fixed order: a profile with two of
  them is valid, and the order in which its SETTINGS are sent changes with the order the map is visited in.\<close>

theorem legacy_spelling_unordered:
  "\<exists>legacy legacy' out out'. set legacy = set legacy' \<and> distinct (map fst legacy)
     \<and> h2Settings (p\<lparr>HTTP2 := Some (h\<lparr>Settings := legacy_settings legacy []\<rparr>)\<rparr>) = Inr out
     \<and> h2Settings (p\<lparr>HTTP2 := Some (h\<lparr>Settings := legacy_settings legacy' []\<rparr>)\<rparr>) = Inr out' \<and> out \<noteq> out'"
proof -
  let ?l = "[(''enable_push'', 0), (''max_frame_size'', 16384)] :: (string \<times> 32 word) list"
  have "legacy_settings ?l [] = map setting ?l" "legacy_settings (rev ?l) [] = map setting (rev ?l)" by code_simp+
  moreover have "h2SettingID ''enable_push'' = Inr SettingEnablePush" "h2SettingID ''max_frame_size'' = Inr SettingMaxFrameSize"
    by code_simp+
  ultimately show ?thesis
    by (intro exI [of _ ?l] exI [of _ "rev ?l"]) (auto simp: h2Settings_def)
qed

end
