(* ===== verification/Pool_Spec.thy ===== *)
theory Pool_Spec
  imports Connection_Pool
begin

text \<open>
  What the pool of \<open>internal/upstream/roundtripper.go\<close> promises, as an abstract machine: a map from hosts to
  open connections, beside those that are open and not adopted yet and those that are evicted and not
  closed yet. The operations are the sections of the code that run under the pool's mutex and what runs
  between them, so that other requests and the connections' own steps may come in between.
\<close>

section \<open>Simulation of operations\<close>

fun run_ops :: "('op \<Rightarrow> 's \<Rightarrow> 'r \<times> 's) \<Rightarrow> 'op list \<Rightarrow> 's \<Rightarrow> 'r list \<times> 's" where
  "run_ops step [] s = ([], s)"
| "run_ops step (op # ops) s =
     (case step op s of (r, s) \<Rightarrow> (case run_ops step ops s of (rs, s) \<Rightarrow> (r # rs, s)))"

text \<open>An implementation whose every operation gives the result of the abstract one, and ends where it ends.\<close>

locale refinement =
  fixes concrete :: "'op \<Rightarrow> 'c \<Rightarrow> 'r \<times> 'c" and abstract :: "'op \<Rightarrow> 'a \<Rightarrow> 'r \<times> 'a"
    and view :: "'c \<Rightarrow> 'a" and ok :: "'c \<Rightarrow> bool"
  assumes simulates: "ok c \<Longrightarrow> concrete op c = (r, c') \<Longrightarrow> abstract op (view c) = (r, view c')"
    and keeps: "ok c \<Longrightarrow> concrete op c = (r, c') \<Longrightarrow> ok c'"
begin

lemma runs_keep: "ok c \<Longrightarrow> run_ops concrete ops c = (rs, c') \<Longrightarrow> ok c'"
  by (induction ops arbitrary: c rs) (auto split: prod.splits dest: keeps)

lemma runs_agree:
  assumes "ok c"
  shows "map_prod id view (run_ops concrete ops c) = run_ops abstract ops (view c)"
  using assms
proof (induction ops arbitrary: c)
  case (Cons op ops)
  obtain r c' where s: "concrete op c = (r, c')" by force
  from simulates [OF Cons.prems s] Cons.IH [OF keeps [OF Cons.prems s]] show ?case
    by (simp add: s split: prod.split) (metis fst_map_prod fst_conv id_apply map_prod_simp prod.inject)
qed simp

end

section \<open>The pool's operations\<close>

text \<open>
  \<open>adoptH2\<close> is \<open>Open\<close>, outside the mutex, and \<open>Adopt\<close>, under it; \<open>evict\<close> is \<open>Evict\<close>, under the mutex, and
  \<open>Close_evicted\<close>, after it. \<open>Conn_step i c\<close> is a step of connection \<open>i\<close> itself to the state \<open>c\<close>: its read loop,
  a request or a reader of a body. A connection that takes no requests never takes any again.
\<close>

datatype pool_op = Look_up string | Open string | Adopt nat | Evict string | Close_evicted nat
  | Conn_step nat h2ClientConn | Shut

datatype pool_result = Found "nat option" | Open_result "go_error + nat" | Adopted nat | Finished

fun pool_run :: "framer \<Rightarrow> Profile \<Rightarrow> pool_op \<Rightarrow> pool_sys \<Rightarrow> pool_result \<times> pool_sys" where
  "pool_run wr p (Look_up host) s =
     (case cachedH2 host (rts s) of
        (None, rt) \<Rightarrow> (Found None, s\<lparr>rts := rt\<rparr>)
      | (Some i, rt) \<Rightarrow> (Found (Some i), s\<lparr>rts := rt, served := served s @ [(host, i)]\<rparr>))"
| "pool_run wr p (Open host) s =
     (case open_h2 wr p (rts s) of
        (Inl e, rt) \<Rightarrow> (Open_result (Inl e), s\<lparr>rts := rt\<rparr>)
      | (Inr i, rt) \<Rightarrow>
          (Open_result (Inr i), s\<lparr>rts := rt, dialed := dialed s @ [host], adopting := insert i (adopting s)\<rparr>))"
| "pool_run wr p (Adopt i) s =
     (if i \<in> adopting s then
        (let host = dialed s ! i
         in case adopt_locked host i (rts s) of
              (j, rt) \<Rightarrow> (Adopted j, s\<lparr>rts := rt, adopting := adopting s - {i}, served := served s @ [(host, j)]\<rparr>))
      else (Finished, s))"
| "pool_run wr p (Evict host) s =
     (case evict_locked host (rts s) of
        (None, rt) \<Rightarrow> (Finished, s\<lparr>rts := rt\<rparr>)
      | (Some i, rt) \<Rightarrow> (Finished, s\<lparr>rts := rt, closing := insert i (closing s)\<rparr>))"
| "pool_run wr p (Close_evicted i) s =
     (Finished, if i \<in> closing s then s\<lparr>rts := close_conn i (rts s), closing := closing s - {i}\<rparr> else s)"
| "pool_run wr p (Conn_step i c) s =
     (Finished,
      if i < length (conns (rts s)) \<and> (CanTakeNewRequest c \<longrightarrow> CanTakeNewRequest (conns (rts s) ! i))
      then s\<lparr>rts := (rts s)\<lparr>conns := (conns (rts s))[i := c]\<rparr>\<rparr> else s)"
| "pool_run wr p Shut s = (Finished, s\<lparr>rts := RoundTripper_Close (rts s)\<rparr>)"

text \<open>Every step of the pool is one of these operations.\<close>

lemma pool_step_run:
  assumes "pool_step wr enc p s s'"
  shows "\<exists>op. snd (pool_run wr p op s) = s'"
  using assms
proof (cases rule: pool_step.cases)
  case (opened i rt host)
  then show ?thesis by (intro exI [of _ "Open host"]) simp
next
  case (adopted i host j rt)
  then show ?thesis by (intro exI [of _ "Adopt i"]) (simp add: Let_def)
next
  case (hit host i rt)
  then show ?thesis by (intro exI [of _ "Look_up host"]) simp
next
  case (miss host rt)
  then show ?thesis by (intro exI [of _ "Look_up host"]) simp
next
  case (evicted host i rt)
  then show ?thesis by (intro exI [of _ "Evict host"]) simp
next
  case (closed i)
  then show ?thesis by (intro exI [of _ "Close_evicted i"]) simp
next
  case (conn i h h')
  then show ?thesis using h2_step_shut [OF conn(3)]
    by (intro exI [of _ "Conn_step i (hconn h')"]) (auto simp: shut_with_def CanTakeNewRequest_def)
next
  case close_pool
  then show ?thesis by (intro exI [of _ Shut]) simp
qed

section \<open>The map\<close>

text \<open>
  \<open>open_for\<close> gives a host its open connection; \<open>live\<close> are all open connections, \<open>fresh\<close> those that are not adopted
  yet, \<open>leaving\<close> those that are evicted and not closed yet; \<open>opened_for\<close> lists the host each connection
  was opened for.
\<close>

record host_map =
  open_for :: "string \<rightharpoonup> nat"
  live :: "nat set"
  fresh :: "nat set"
  leaving :: "nat set"
  opened_for :: "string list"

text \<open>Connections leave the map, the open ones or both.\<close>

definition unmap :: "nat set \<Rightarrow> (string \<rightharpoonup> nat) \<Rightarrow> string \<rightharpoonup> nat" where
  "unmap xs m = (\<lambda>host. case m host of Some i \<Rightarrow> if i \<in> xs then None else Some i | None \<Rightarrow> None)"

text \<open>\<open>failure\<close> is the error with which connections fail to open, if they do.\<close>

fun host_map_run :: "go_error option \<Rightarrow> pool_op \<Rightarrow> host_map \<Rightarrow> pool_result \<times> host_map" where
  "host_map_run failure (Look_up host) m = (Found (open_for m host), m)"
| "host_map_run failure (Open host) m =
     (case failure of
        Some e \<Rightarrow> (Open_result (Inl e), m)
      | None \<Rightarrow>
          (let n = length (opened_for m)
           in (Open_result (Inr n), m\<lparr>live := insert n (live m), fresh := insert n (fresh m), opened_for := opened_for m @ [host]\<rparr>)))"
| "host_map_run failure (Adopt i) m =
     (if i \<in> fresh m then
        (let host = opened_for m ! i; m' = m\<lparr>fresh := fresh m - {i}\<rparr>
         in case open_for m host of
              Some j \<Rightarrow> (Adopted j, m'\<lparr>live := live m - {i}\<rparr>)
            | None \<Rightarrow> (Adopted i, if i \<in> live m then m'\<lparr>open_for := (open_for m)(host \<mapsto> i)\<rparr> else m'))
      else (Finished, m))"
| "host_map_run failure (Evict host) m =
     (Finished, m\<lparr>open_for := (open_for m)(host := None), leaving := leaving m \<union> set_option (open_for m host)\<rparr>)"
| "host_map_run failure (Close_evicted i) m =
     (Finished, if i \<in> leaving m then m\<lparr>live := live m - {i}, leaving := leaving m - {i}\<rparr> else m)"
| "host_map_run failure (Conn_step i c) m =
     (Finished,
      if CanTakeNewRequest c then m
      else m\<lparr>open_for := unmap {i} (open_for m), live := live m - {i}, leaving := leaving m - {i}\<rparr>)"
| "host_map_run failure Shut m = (Finished, m\<lparr>open_for := Map.empty, live := live m - ran (open_for m)\<rparr>)"

definition empty_map :: host_map where
  "empty_map = \<lparr>open_for = Map.empty, live = {}, fresh = {}, leaving = {}, opened_for = []\<rparr>"

definition open_failure :: "framer \<Rightarrow> Profile \<Rightarrow> go_error option" where
  "open_failure wr p =
     (case fst (newH2ClientConn wr p) of Inl e \<Rightarrow> Some (Wrapf ''establish http/2 connection'' e) | Inr _ \<Rightarrow> None)"

definition alive :: "rt_state \<Rightarrow> nat set" where
  "alive rt = {i. i < length (conns rt) \<and> CanTakeNewRequest (conns rt ! i)}"

definition pooled_for :: "rt_state \<Rightarrow> string \<rightharpoonup> nat" where
  "pooled_for rt = unmap (- alive rt) (map_of (pool rt))"

definition host_view :: "pool_sys \<Rightarrow> host_map" where
  "host_view s = \<lparr>open_for = pooled_for (rts s), live = alive (rts s), fresh = adopting s,
     leaving = closing s \<inter> alive (rts s), opened_for = dialed s\<rparr>"

definition pool_ok :: "pool_sys \<Rightarrow> bool" where
  "pool_ok s \<longleftrightarrow> length (dialed s) = length (conns (rts s)) \<and> distinct (map fst (pool (rts s)))
     \<and> (\<forall>(host, i)\<in>set (pool (rts s)). i < length (dialed s) \<and> dialed s ! i = host \<and> i \<notin> adopting s \<union> closing s)
     \<and> adopting s \<union> closing s \<subseteq> {..<length (dialed s)} \<and> adopting s \<inter> closing s = {}"

section \<open>The effects of the operations on the view\<close>

lemma unmap_at: "unmap xs m host = Some i \<longleftrightarrow> m host = Some i \<and> i \<notin> xs"
  "unmap xs m host = None \<longleftrightarrow> (\<forall>i. m host = Some i \<longrightarrow> i \<in> xs)"
  by (auto simp: unmap_def split: option.splits)

lemma map_eqI: "(\<And>h i. m h = Some i \<longleftrightarrow> m' h = Some i) \<Longrightarrow> m = m'"
  by (rule ext) (metis option.exhaust)

lemma pooled_for_at:
  "pooled_for rt host = Some i \<longleftrightarrow> map_of (pool rt) host = Some i \<and> i \<in> alive rt"
  "pooled_for rt host = None \<longleftrightarrow> (\<forall>i. map_of (pool rt) host = Some i \<longrightarrow> i \<notin> alive rt)"
  by (simp_all add: pooled_for_def unmap_at)

lemma alive_close [simp]: "alive (close_conn i rt) = alive rt - {i}"
  by (auto simp: alive_def conns_close_conn CanTakeNewRequest_def Close_eq h2_simps split: if_splits)

lemma alive_pool [simp]: "alive (rt\<lparr>pool := ps\<rparr>) = alive rt"
  by (simp add: alive_def)

lemma pool_okD:
  assumes "pool_ok s"
  shows "length (dialed s) = length (conns (rts s))" "distinct (map fst (pool (rts s)))"
    and "map_of (pool (rts s)) h = Some i \<Longrightarrow> i < length (dialed s) \<and> dialed s ! i = h \<and> i \<notin> adopting s \<and> i \<notin> closing s"
    and "(h, i) \<in> set (pool (rts s)) \<Longrightarrow> i < length (dialed s) \<and> dialed s ! i = h \<and> i \<notin> adopting s \<and> i \<notin> closing s"
    and "i \<in> adopting s \<Longrightarrow> i < length (dialed s) \<and> i \<notin> closing s" "i \<in> closing s \<Longrightarrow> i < length (dialed s)"
  using assms unfolding pool_ok_def by (blast dest: map_of_SomeD)+

lemma pool_okI:
  assumes "length (dialed s) = length (conns (rts s))" "distinct (map fst (pool (rts s)))"
    and "\<And>h i. (h, i) \<in> set (pool (rts s)) \<Longrightarrow> i < length (dialed s) \<and> dialed s ! i = h \<and> i \<notin> adopting s \<and> i \<notin> closing s"
    and "\<And>i. i \<in> adopting s \<Longrightarrow> i < length (dialed s) \<and> i \<notin> closing s" "\<And>i. i \<in> closing s \<Longrightarrow> i < length (dialed s)"
  shows "pool_ok s"
  using assms unfolding pool_ok_def by blast

section \<open>The pool refines the map\<close>

lemma refinesI:
  "pool_run wr p op s = (r, s') \<Longrightarrow> host_map_run f op (host_view s) = (r, host_view s') \<Longrightarrow> pool_ok s' \<Longrightarrow>
   host_map_run f op (host_view s) = map_prod id host_view (pool_run wr p op s) \<and> pool_ok (snd (pool_run wr p op s))"
  by simp

text \<open>Dropping a host's entry.\<close>

lemma delete_at [simp]: "map_of (AList.delete h ps) x = Some i \<longleftrightarrow> x \<noteq> h \<and> map_of ps x = Some i"
  by (simp add: delete_conv')

lemma dropped_ok:
  "pool_ok s \<Longrightarrow> rts s' = rts s\<lparr>pool := AList.delete h (pool (rts s))\<rparr> \<or> rts s' = close_conn i (rts s\<lparr>pool := AList.delete h (pool (rts s))\<rparr>)
     \<Longrightarrow> dialed s' = dialed s \<Longrightarrow> adopting s' = adopting s \<Longrightarrow> closing s' = closing s \<Longrightarrow> pool_ok s'"
  by (intro pool_okI) (auto simp: delete_set distinct_delete dest: pool_okD)

lemma look_up_refines:
  assumes ok: "pool_ok s"
  shows "host_map_run f (Look_up host) (host_view s) = map_prod id host_view (pool_run wr p (Look_up host) s)
     \<and> pool_ok (snd (pool_run wr p (Look_up host) s))"
proof (cases "map_of (pool (rts s)) host")
  case None
  then have "cachedH2 host (rts s) = (None, rts s)" "pooled_for (rts s) host = None"
    by (simp_all add: cachedH2_def pooled_for_at)
  with ok show ?thesis by (simp add: host_view_def)
next
  case (Some i)
  from pool_okD(1,3) [OF ok] Some have i: "i < length (conns (rts s))" by auto
  let ?rt = "close_conn i (rts s\<lparr>pool := AList.delete host (pool (rts s))\<rparr>)"
  show ?thesis
  proof (cases "i \<in> alive (rts s)")
    case True
    with Some i have "cachedH2 host (rts s) = (Some i, rts s)" "pooled_for (rts s) host = Some i"
      by (simp_all add: cachedH2_def pooled_for_at alive_def)
    moreover have "pool_ok (s\<lparr>served := served s @ [(host, i)]\<rparr>)" using pool_okD [OF ok] by (intro pool_okI) auto
    ultimately show ?thesis by (simp add: host_view_def)
  next
    case False
    with Some i have c: "cachedH2 host (rts s) = (None, ?rt)" "pooled_for (rts s) host = None"
      by (simp_all add: cachedH2_def pooled_for_at alive_def)
    have "pooled_for ?rt = pooled_for (rts s)"
      using False Some by (intro map_eqI) (auto simp: pooled_for_at)
    with c False dropped_ok [OF ok, of "s\<lparr>rts := ?rt\<rparr>"] show ?thesis by (auto simp: host_view_def)
  qed
qed

lemma open_refines:
  assumes ok: "pool_ok s"
  shows "host_map_run (open_failure wr p) (Open host) (host_view s) = map_prod id host_view (pool_run wr p (Open host) s)
     \<and> pool_ok (snd (pool_run wr p (Open host) s))"
proof (cases "newH2ClientConn wr p")
  case (Pair r c)
  note len = pool_okD(1) [OF ok]
  show ?thesis
  proof (cases r)
    case (Inl e)
    with Pair ok show ?thesis by (simp add: open_h2_def open_failure_def host_view_def)
  next
    case (Inr u)
    let ?rt = "rts s\<lparr>conns := conns (rts s) @ [c]\<rparr>" and ?n = "length (conns (rts s))"
    let ?s = "s\<lparr>rts := ?rt, dialed := dialed s @ [host], adopting := insert ?n (adopting s)\<rparr>"
    from Pair Inr have run: "pool_run wr p (Open host) s = (Open_result (Inr ?n), ?s)" "open_failure wr p = None" "CanTakeNewRequest c"
      using Opening_simps [of wr p c] by (auto simp: open_h2_def open_failure_def CanTakeNewRequest_def)
    then have a: "alive ?rt = insert ?n (alive (rts s))" by (auto simp: alive_def nth_append less_Suc_eq)
    have n: "?n \<notin> closing s" "?n \<notin> alive (rts s)" using pool_okD(6) [OF ok, of ?n] len by (auto simp: alive_def)
    have "pooled_for ?rt = pooled_for (rts s)"
      using pool_okD(3) [OF ok] by (intro map_eqI) (auto simp: pooled_for_at a len)
    moreover have "pool_ok ?s"
      using pool_okD [OF ok] n(1) by (intro pool_okI) (auto simp: nth_append less_Suc_eq)
    ultimately show ?thesis using n by (intro refinesI [OF run(1)]) (simp_all add: run(2) host_view_def a len Let_def)
  qed
qed

lemma evict_refines:
  assumes ok: "pool_ok s"
  shows "host_map_run f (Evict host) (host_view s) = map_prod id host_view (pool_run wr p (Evict host) s)
     \<and> pool_ok (snd (pool_run wr p (Evict host) s))"
proof (cases "map_of (pool (rts s)) host")
  case None
  then have "pooled_for (rts s) host = None" by (simp add: pooled_for_at)
  then have "(pooled_for (rts s))(host := None) = pooled_for (rts s)" by (simp add: fun_upd_idem)
  with None ok \<open>pooled_for (rts s) host = None\<close> show ?thesis by (simp add: evict_locked_def host_view_def)
next
  case (Some i)
  let ?rt = "rts s\<lparr>pool := AList.delete host (pool (rts s))\<rparr>"
  let ?s = "s\<lparr>rts := ?rt, closing := insert i (closing s)\<rparr>"
  from Some have run: "pool_run wr p (Evict host) s = (Finished, ?s)" by (simp add: evict_locked_def)
  have "pooled_for ?rt = (pooled_for (rts s))(host := None)" by (rule map_eqI) (auto simp: pooled_for_at)
  moreover have "set_option (pooled_for (rts s) host) = {i} \<inter> alive (rts s)"
    using Some pooled_for_at [of "rts s" host] by (cases "pooled_for (rts s) host") auto
  moreover have "pool_ok ?s"
    using pool_okD [OF ok] pool_okD(3) [OF ok Some] by (intro pool_okI) (auto simp: delete_set distinct_delete)
  ultimately show ?thesis by (intro refinesI [OF run]) (auto simp: host_view_def)
qed

lemma close_evicted_refines:
  assumes ok: "pool_ok s"
  shows "host_map_run f (Close_evicted i) (host_view s) = map_prod id host_view (pool_run wr p (Close_evicted i) s)
     \<and> pool_ok (snd (pool_run wr p (Close_evicted i) s))"
proof (cases "i \<in> closing s")
  case True
  have "pool_ok (s\<lparr>rts := close_conn i (rts s), closing := closing s - {i}\<rparr>)"
    using pool_okD [OF ok] by (intro pool_okI) auto
  moreover have "pooled_for (close_conn i (rts s)) = pooled_for (rts s)"
    using pool_okD(3) [OF ok] True by (intro map_eqI) (auto simp: pooled_for_at)
  ultimately show ?thesis using True by (auto simp: host_view_def)
qed (use ok in \<open>auto simp: host_view_def\<close>)

lemma conn_refines:
  assumes ok: "pool_ok s"
  shows "host_map_run f (Conn_step i c) (host_view s) = map_prod id host_view (pool_run wr p (Conn_step i c) s)
     \<and> pool_ok (snd (pool_run wr p (Conn_step i c) s))"
proof (cases "i < length (conns (rts s)) \<and> (CanTakeNewRequest c \<longrightarrow> i \<in> alive (rts s))")
  case True
  let ?rt = "rts s\<lparr>conns := (conns (rts s))[i := c]\<rparr>"
  from True have run: "pool_run wr p (Conn_step i c) s = (Finished, s\<lparr>rts := ?rt\<rparr>)" by (simp add: alive_def)
  have a: "alive ?rt = (if CanTakeNewRequest c then alive (rts s) else alive (rts s) - {i})"
    using True by (auto simp: alive_def nth_list_update)
  have "pooled_for ?rt = (if CanTakeNewRequest c then pooled_for (rts s) else unmap {i} (pooled_for (rts s)))"
    by (rule map_eqI) (auto simp: pooled_for_at unmap_at a)
  moreover have "pool_ok (s\<lparr>rts := ?rt\<rparr>)" using pool_okD [OF ok] by (intro pool_okI) auto
  ultimately show ?thesis by (intro refinesI [OF run]) (auto simp: host_view_def a)
next
  case False
  then have run: "pool_run wr p (Conn_step i c) s = (Finished, s)" by (auto simp: alive_def)
  have "unmap {i} (pooled_for (rts s)) = pooled_for (rts s)" if "i \<notin> alive (rts s)"
    using that by (intro map_eqI) (auto simp: unmap_at pooled_for_at)
  with False ok show ?thesis by (intro refinesI [OF run]) (auto simp: host_view_def alive_def)
qed

lemma shut_refines:
  assumes ok: "pool_ok s"
  shows "host_map_run f Shut (host_view s) = map_prod id host_view (pool_run wr p Shut s) \<and> pool_ok (snd (pool_run wr p Shut s))"
proof -
  have r: "ran (pooled_for (rts s)) = snd ` set (pool (rts s)) \<inter> alive (rts s)"
    using pool_okD(2) [OF ok] by (force simp: ran_def pooled_for_at)
  have a: "alive (RoundTripper_Close (rts s)) = alive (rts s) - ran (pooled_for (rts s))"
    unfolding r by (auto simp: alive_def RoundTripper_Close_simps CanTakeNewRequest_def Close_eq h2_simps split: if_splits) force
  have "pooled_for (RoundTripper_Close (rts s)) = Map.empty" by (simp add: pooled_for_def unmap_def RoundTripper_Close_simps)
  moreover have "closing s \<inter> ran (pooled_for (rts s)) = {}"
    using pool_okD(4) [OF ok] unfolding r by force
  moreover have "pool_ok (s\<lparr>rts := RoundTripper_Close (rts s)\<rparr>)"
    using pool_okD [OF ok] by (intro pool_okI) (auto simp: RoundTripper_Close_simps)
  ultimately show ?thesis by (auto simp: host_view_def a)
qed

text \<open>An adoption keeps the connection that is pooled, if it is open, and puts the new one in its place otherwise.\<close>

lemma adopt_refines:
  assumes ok: "pool_ok s"
  shows "host_map_run f (Adopt i) (host_view s) = map_prod id host_view (pool_run wr p (Adopt i) s)
     \<and> pool_ok (snd (pool_run wr p (Adopt i) s))"
proof (cases "i \<in> adopting s")
  case True
  let ?host = "dialed s ! i"
  note i = pool_okD(5) [OF ok True]
  let ?to = "\<lambda>rt j. s\<lparr>rts := rt, adopting := adopting s - {i}, served := served s @ [(?host, j)]\<rparr>"
  show ?thesis
  proof (cases "pooled_for (rts s) ?host")
    case (Some e)
    then have "map_of (pool (rts s)) ?host = Some e" "CanTakeNewRequest (conns (rts s) ! e)"
      by (auto simp: pooled_for_at alive_def)
    with True have run: "pool_run wr p (Adopt i) s = (Adopted e, ?to (close_conn i (rts s)) e)"
      by (simp add: adopt_locked_def Let_def)
    have "pooled_for (close_conn i (rts s)) = pooled_for (rts s)"
      using pool_okD(3) [OF ok] True by (intro map_eqI) (auto simp: pooled_for_at)
    moreover have "pool_ok (?to (close_conn i (rts s)) e)" using pool_okD [OF ok] by (intro pool_okI) auto
    ultimately show ?thesis using True Some i by (intro refinesI [OF run]) (auto simp: host_view_def Let_def)
  next
    case None
    define rt where "rt = snd (adopt_locked ?host i (rts s))"
    have l: "fst (adopt_locked ?host i (rts s)) = i" "pool rt = AList.update ?host i (pool (rts s))"
        "length (conns rt) = length (conns (rts s))" "alive rt = alive (rts s)"
      using None pool_okD(1,3) [OF ok]
      by (auto simp: rt_def adopt_locked_def pooled_for_at alive_def [of "rts s"] split: option.splits)
    with True have run: "pool_run wr p (Adopt i) s = (Adopted i, ?to rt i)"
      by (auto simp: Let_def rt_def split: prod.split)
    have "pooled_for rt = (if i \<in> alive (rts s) then (pooled_for (rts s))(?host \<mapsto> i) else pooled_for (rts s))"
      using None by (intro map_eqI) (auto simp: pooled_for_at l update_conv')
    moreover have "pool_ok (?to rt i)"
      using pool_okD [OF ok] i by (intro pool_okI) (auto simp: l update_keeps distinct_update)
    ultimately show ?thesis using True None by (intro refinesI [OF run]) (auto simp: host_view_def l Let_def)
  qed
qed (use ok in \<open>simp add: host_view_def\<close>)

interpretation pooled: refinement "pool_run wr p" "host_map_run (open_failure wr p)" host_view pool_ok for wr p
proof
  fix op s r s'
  assume ok: "pool_ok s" and run: "pool_run wr p op s = (r, s')"
  have "host_map_run (open_failure wr p) op (host_view s) = map_prod id host_view (pool_run wr p op s)
      \<and> pool_ok (snd (pool_run wr p op s))"
    by (cases op) (simp_all only: look_up_refines [OF ok] open_refines [OF ok] adopt_refines [OF ok] evict_refines [OF ok]
        close_evicted_refines [OF ok] conn_refines [OF ok] shut_refines [OF ok])
  then show "host_map_run (open_failure wr p) op (host_view s) = (r, host_view s')" "pool_ok s'"
    unfolding run by simp_all
qed

lemma pool_ok_start: "pool_ok pool_start" and host_view_start: "host_view pool_start = empty_map"
  by (simp_all add: pool_ok_def host_view_def pooled_for_def unmap_def alive_def pool_start_def empty_map_def)

text \<open>C5: the pool is a map from hosts to open connections. Whatever requests look up, open, adopt and evict, the
  sections of one between those of another, and whatever the connections themselves do in between,
  every section gives the result of the map and leaves what the map leaves: a look-up finds the open
  connection that was adopted for the host, or none; an adoption hands out the host's connection as
  long as that is open, and closes the new one, and hands out the new one otherwise, which becomes the
  host's if it is open. (An adoption does not look whether the new connection is still open.)\<close>

theorem pool_refines_host_map:
  "map_prod id host_view (run_ops (pool_run wr p) ops pool_start) = run_ops (host_map_run (open_failure wr p)) ops empty_map"
  using pooled.runs_agree [OF pool_ok_start] by (simp only: host_view_start)

section \<open>A connection that dies before it is adopted\<close>

text \<open>It is handed out, and the map does not gain it: the next look-up finds nothing.\<close>

lemma dead_connection_handed_out:
  "fst (run_ops (pool_run run_framer run_profile) [Open ''a.io'', Conn_step 0 (Close run_conn), Adopt 0, Look_up ''a.io''] pool_start)
     = [Open_result (Inr 0), Finished, Adopted 0, Found None]"
proof -
  have "open_failure run_framer run_profile = None" by (simp add: open_failure_def run_opened)
  moreover have "\<not> CanTakeNewRequest (Close run_conn)" by (simp add: CanTakeNewRequest_def Close_eq h2_simps)
  ultimately have "fst (run_ops (host_map_run (open_failure run_framer run_profile))
      [Open ''a.io'', Conn_step 0 (Close run_conn), Adopt 0, Look_up ''a.io''] empty_map)
    = [Open_result (Inr 0), Finished, Adopted 0, Found None]"
    by (simp add: empty_map_def unmap_def)
  then show ?thesis
    using pooled.runs_agree [OF pool_ok_start] by (metis host_view_start fst_map_prod id_apply)
qed

end
