(* ===== verification/Spec2Isabelle.thy ===== *)
theory Spec2Isabelle
  imports Cli Profile_Json Pool_Spec
begin

text \<open>
  Doppel (a Go program, \<open>cmd/doppel\<close> and \<open>internal/...\<close>) is a proxy that gives its clients the network
  identity of a chosen device: it takes SOCKS5 or HTTP CONNECT clients, terminates their TLS with a
  certificate of its own CA, and sends each request on with the TLS ClientHello, the HTTP/2 fingerprint
  and the headers of a profile. The development models the whole program. A connection goes through it
  in this order, and the theories follow it.

  \<^bold>\<open>Ground.\<close>
    \<^item> \<open>Doppel_Prelude\<close>, \<open>Go_Strings\<close>, \<open>Go_Net\<close>, \<open>Stable_Sort\<close>, \<open>Http_Header\<close>, \<open>Http_Message\<close> and
      \<open>Http_Response\<close> hold what the source uses of Go's standard library: strings as bytes, \<open>strconv\<close>,
      errors as the datatype \<open>go_error\<close>, \<open>net.SplitHostPort\<close> and \<open>ParseIP\<close>, \<open>sort.SliceStable\<close>, header maps
      as association lists whose order is one visiting order of the map, requests, and
      \<open>Response.Write\<close> with its choice of framing. \<open>Http_Message\<close> also holds \<open>WriteRequestHTTP1\<close>
      (\<open>upstream/roundtripper.go\<close>) and the status replies.
    \<^item> \<open>Connection\<close>: a connection as the bytes to come, the bytes written and a point where writes fail.

  \<^bold>\<open>Proxy side.\<close>
    \<^item> \<open>Socks_Server\<close> (\<open>proxy/socks5.go\<close>), \<open>Proxy_Server\<close> (\<open>proxy/server.go\<close>, \<open>proxy/http.go\<close>): negotiation,
      protocol detection, the handshake deadline and the hand-over, and the accept loop with its
      shutdown as the step relation \<open>serve_step\<close>.
    \<^item> \<open>Host_Match\<close> (the pattern lists of \<open>mitm.go\<close>, \<open>dialer.go\<close> and \<open>main.go\<close>), \<open>Tunnel\<close> (\<open>Passthrough\<close> and
      \<open>tunnel\<close>: two copies, each with its read and its write, whose own steps \<open>tunnel_own\<close> are interleaved with those
      of the two sides and of time, \<open>tunnel_env\<close>).
    \<^item> \<open>Mitm\<close> (\<open>mitm/mitm.go\<close>, \<open>mitm/errors.go\<close>): the request loop, \<open>forward\<close>, \<open>forwardWebSocket\<close> and the
      classification of errors. A list of reads with the surroundings of each is the run of a loop.
    \<^item> \<open>Authority\<close> (\<open>ca/ca.go\<close>, \<open>config/config.go\<close>): the CA, its files, and the leaf cache as the step
      relation \<open>leaf_step\<close> over concurrent calls.

  \<^bold>\<open>Server side.\<close>
    \<^item> \<open>Dialer\<close> (\<open>dialer.go\<close>, \<open>clienthello.go\<close>), \<open>Socks_Client\<close> (\<open>upstream/proxy.go\<close>).
    \<^item> \<open>H2_Headers\<close> (\<open>h2profile.go\<close> and the header block), \<open>H2_Client\<close> (\<open>h2client.go\<close>,
      \<open>h2client_response.go\<close>): the connection's shared state with one definition for each critical
      section; callers, the read loop and readers of bodies are threads of the step relation
      \<open>h2_step\<close>. \<open>H2_Invariants\<close> proves its invariant, \<open>H2_Runs\<close> has complete runs.
    \<^item> \<open>Round_Tripper\<close> (\<open>roundtripper.go\<close>) and \<open>Connection_Pool\<close>, the pool under every interleaving of
      requests, evictions and the connections' own steps (\<open>pool_step\<close>); \<open>Pool_Spec\<close>, the same sections as
      operations and their abstract specification, a map from hosts to open connections; \<open>Decompress\<close>
      (\<open>decompress.go\<close>).

  \<^bold>\<open>Identity and commands.\<close>
    \<^item> \<open>Profile\<close>, \<open>Profile_Json\<close> and \<open>Profile_Registry\<close> (\<open>profile/profile.go\<close>, \<open>profile/embed.go\<close>, the merge in
      \<open>main.go\<close>), \<open>Launch\<close> (\<open>launch/launch.go\<close>), \<open>Wizard\<close> (\<open>wizard/wizard.go\<close>), and \<open>Cli\<close> (\<open>cmd/doppel/main.go\<close>):
      every command from its parsed flags to its effects.

  \<^bold>\<open>How the model reads.\<close> A struct is a record, an error a value of \<open>go_error\<close>, a fallible result a sum.
  Shared state under a mutex is a record, and each critical section a function on it; goroutines are
  interleaved by step relations, over which invariants are proved by rule induction. A buffered
  channel of one is an option, an unbuffered pipe a buffer with its reader's and writer's ends. Widths are
  kept where the code has them (\<open>32 word\<close> for stream identifiers, settings and window increments,
  bytes for the SOCKS messages). No fuel is used: loops are structural recursion over their input.
  Some sections are coarser than the code: what \<open>failAll\<close>, \<open>Close\<close> and the removal of a stream do right after they
  unlock belongs to their step, a write of a negotiation goes out whole or fails, and a file that exists
  can be read.

  \<^bold>\<open>What the lemmas show.\<close> For the shared HTTP/2 connection: answers go to the request that caused them, every caller
  can return, identifiers are fresh, credit is never more than what was received. For the pool: section by section it is the map it is meant
  to be (with the connections that are not adopted yet or not closed yet beside it), and no connection is lost. For negotiation: what is accepted, what is refused and with which reply, that
  the SOCKS5 client and server of the program understand each other, and what is handed on. For the
  request path: which fields leave, in which order, with which framing, and which hop-by-hop fields
  do not; what the client receives, in which order. For dialing: the route, the deadline, the identity
  and that nothing is leaked. For the CA: what is saved is what is loaded, and a host has one leaf. For
  the commands: what \<open>init\<close> makes the others find, what \<open>profiles\<close> lists the others load, and
  that a started proxy has one identity. Some theorems state behaviour that falls short of what the
  code or its documentation means: decoded responses without an end, tunnels that keep the dial's deadline,
  trailers that abort a body, resets that are put down to the client, settings in no order, and a window
  update where the documentation says none.

  \<^bold>\<open>Interfaces.\<close> Four locales state what a client relies on, and are interpreted on the model's own
  definitions: \<open>header_store\<close> (\<open>Http_Header\<close>), the contract of header maps that the rewriting of requests, the
  removal of hop-by-hop fields, the writers and the decoder use; \<open>pattern_loop\<close> (\<open>Host_Match\<close>), which both
  host lists satisfy; \<open>strict_weak_order\<close> (\<open>Stable_Sort\<close>), what \<open>sort.SliceStable\<close> promises for the
  orders of header names and of strings; \<open>refinement\<close> (\<open>Pool_Spec\<close>), under which a run of operations agrees
  with the run of its specification.

  \<^bold>\<open>Arguments of the model.\<close> uTLS and TLS handshakes, X.509, PEM and key generation, HPACK and the frame
  codec's failures, the decoders of compressed bodies, \<open>net/url\<close>, \<open>encoding/json\<close>, \<open>http.ReadRequest\<close> and
  \<open>http.ReadResponse\<close>, the file system's failures and the network are arguments of the definitions
  that use them.

  \<^bold>\<open>Not modelled.\<close> Logging (\<open>newLogger\<close>, the \<open>logger\<close> methods and their calls) and \<open>usage\<close>: they only
  write to standard error. The \<open>flag\<close> package and signals: the commands take parsed flags, and
  cancellation is a step. The trailers a response may carry: the code stores them and reads them nowhere.
\<close>

section \<open>Hop-by-hop fields\<close>
















end
